theory Spec2Isabelle
  imports Main "HOL-Library.Word" "HOL-Library.AList" "HOL-Library.Sublist"
begin

section \<open>capnslog: the log level registry of logmap.go\<close>

subsection \<open>Log levels\<close>

text \<open>
  \<^verbatim>\<open>type LogLevel int8\<close>: a signed 8-bit integer. Every one of the 256 values is a
  value of the type; the seven constants of the \<^verbatim>\<open>const\<close> block are the named ones.
  \<^verbatim>\<open>CRITICAL\<close> is \<open>-1\<close>, the others count up from \<open>0\<close>. Only \<^verbatim>\<open>CRITICAL\<close> is declared
  with the type; the others are untyped constants, converted to \<^verbatim>\<open>LogLevel\<close> wherever the
  functions below use them as one.
\<close>

type_synonym LogLevel = "8 word"

definition CRITICAL :: LogLevel where "CRITICAL = - 1"
definition ERROR :: LogLevel where "ERROR = 0"
definition WARNING :: LogLevel where "WARNING = 1"
definition NOTICE :: LogLevel where "NOTICE = 2"
definition INFO :: LogLevel where "INFO = 3"
definition DEBUG :: LogLevel where "DEBUG = 4"
definition TRACE :: LogLevel where "TRACE = 5"

text \<open>The constants of the \<^verbatim>\<open>const\<close> block, in the order they are declared.\<close>

definition levels :: "LogLevel list" where
  "levels = [CRITICAL, ERROR, WARNING, NOTICE, INFO, DEBUG, TRACE]"

text \<open>
  An \<^verbatim>\<open>error\<close> value made by \<^verbatim>\<open>errors.New(msg)\<close> carries its message. A panic carries
  the value it was raised with: a string in \<^verbatim>\<open>Char\<close>, an error in \<^verbatim>\<open>MustRepoLogger\<close>.
\<close>

datatype error = errors_New string

datatype panic = panic_string string | panic_error error

text \<open>\<^verbatim>\<open>func (l LogLevel) Char() string\<close>: the \<^verbatim>\<open>default\<close> branch panics.\<close>

definition LogLevel_Char :: "LogLevel \<Rightarrow> panic + string" where
  "LogLevel_Char l =
     (if l = CRITICAL then Inr ''C''
      else if l = ERROR then Inr ''E''
      else if l = WARNING then Inr ''W''
      else if l = NOTICE then Inr ''N''
      else if l = INFO then Inr ''I''
      else if l = DEBUG then Inr ''D''
      else if l = TRACE then Inr ''T''
      else Inl (panic_string ''Unhandled loglevel''))"

text \<open>
  \<^verbatim>\<open>func ParseLevel(s string) (LogLevel, error)\<close>: Go returns both components always;
  a \<^verbatim>\<open>nil\<close> error is \<open>None\<close>. On failure the level component is \<^verbatim>\<open>CRITICAL\<close>.
\<close>

definition ParseLevel :: "string \<Rightarrow> LogLevel \<times> error option" where
  "ParseLevel s =
     (if s = ''CRITICAL'' \<or> s = ''C'' then (CRITICAL, None)
      else if s = ''ERROR'' \<or> s = ''0'' \<or> s = ''E'' then (ERROR, None)
      else if s = ''WARNING'' \<or> s = ''1'' \<or> s = ''W'' then (WARNING, None)
      else if s = ''NOTICE'' \<or> s = ''2'' \<or> s = ''N'' then (NOTICE, None)
      else if s = ''INFO'' \<or> s = ''3'' \<or> s = ''I'' then (INFO, None)
      else if s = ''DEBUG'' \<or> s = ''4'' \<or> s = ''D'' then (DEBUG, None)
      else if s = ''TRACE'' \<or> s = ''5'' \<or> s = ''T'' then (TRACE, None)
      else (CRITICAL, Some (errors_New (''couldn't parse log level '' @ s))))"

subsection \<open>Go maps and \<^verbatim>\<open>strings.Split\<close>\<close>

text \<open>
  A Go map is modelled by an association list with distinct keys; the order of the list
  stands for one order in which \<^verbatim>\<open>range\<close> may visit the entries, and a property proved for
  every such list holds for every iteration order. The \<^verbatim>\<open>nil\<close> map is \<open>None\<close>: reading
  it finds no key and ranging over it visits nothing. \<^verbatim>\<open>m[k] = v\<close> on a map that is not
  \<^verbatim>\<open>nil\<close> is \<^const>\<open>AList.update\<close>.
\<close>

definition map_index :: "('k \<times> 'v) list option \<Rightarrow> 'k \<Rightarrow> 'v option" where
  "map_index m k = (case m of None \<Rightarrow> None | Some al \<Rightarrow> map_of al k)"

definition map_range :: "('k \<times> 'v) list option \<Rightarrow> ('k \<times> 'v) list" where
  "map_range m = (case m of None \<Rightarrow> [] | Some al \<Rightarrow> al)"

text \<open>
  \<^verbatim>\<open>strings.Split(s, sep)\<close> of the Go library, for a separator of one byte (both calls in
  \<^verbatim>\<open>ParseLogLevelConfig\<close> pass one): the substrings between the separators, in order,
  one more than there are separators. Go strings are byte sequences, as \<^typ>\<open>string\<close> is.
\<close>

fun strings_Split :: "string \<Rightarrow> char \<Rightarrow> string list" where
  "strings_Split [] sep = [[]]"
| "strings_Split (x # xs) sep =
     (if x = sep then [] # strings_Split xs sep
      else (case strings_Split xs sep of
              [] \<Rightarrow> [[x]]
            | t # ts \<Rightarrow> (x # t) # ts))"

subsection \<open>The registry and its heap\<close>

text \<open>
  \<^verbatim>\<open>packageLogger\<close> is declared in another file of the package; \<^verbatim>\<open>NewPackageLogger\<close>
  builds it from the two fields \<^verbatim>\<open>pkg\<close> and \<^verbatim>\<open>level\<close>, which are the fields modelled.
  A \<^verbatim>\<open>*packageLogger\<close> is an address in the store \<open>packageLoggers\<close>.

  \<^verbatim>\<open>type repoLogger map[string]*packageLogger\<close> is a reference: the handle returned by
  \<^verbatim>\<open>RepoLogger\<close> and the entry of \<^verbatim>\<open>logger.repoMap\<close> denote one table. A handle is an
  address in the store \<open>repoLoggers\<close>, or \<open>None\<close> for the \<^verbatim>\<open>nil\<close> handle that
  \<^verbatim>\<open>RepoLogger\<close> returns with an error. The entries of \<^verbatim>\<open>logger.repoMap\<close> are made by
  \<^verbatim>\<open>make(repoLogger)\<close> only, so they are addresses. Allocation appends to a store.

  \<^verbatim>\<open>loggerStruct\<close> embeds a mutex; the model is sequential and \<^verbatim>\<open>Lock\<close>/\<^verbatim>\<open>Unlock\<close> are
  not modelled. \<^verbatim>\<open>Formatter\<close> is declared elsewhere and is a type parameter here;
  \<^verbatim>\<open>new(loggerStruct)\<close> leaves both fields \<^verbatim>\<open>nil\<close>.
\<close>

record packageLogger =
  pkg :: string
  level :: LogLevel

type_synonym repoLogger = "nat option"

record 'f loggerStruct =
  repoMap :: "(string \<times> nat) list option"
  formatter :: "'f option"

record 'f world =
  logger :: "'f loggerStruct"
  repoLoggers :: "(string \<times> nat) list list"
  packageLoggers :: "packageLogger list"

definition logger_new :: "'f world" where
  "logger_new = \<lparr>logger = \<lparr>repoMap = None, formatter = None\<rparr>,
                 repoLoggers = [], packageLoggers = []\<rparr>"

text \<open>The table a handle denotes, as a Go map value: the \<^verbatim>\<open>nil\<close> handle is the \<^verbatim>\<open>nil\<close> map.\<close>

definition table :: "'f world \<Rightarrow> repoLogger \<Rightarrow> (string \<times> nat) list option" where
  "table w r = (case r of None \<Rightarrow> None | Some a \<Rightarrow> Some (repoLoggers w ! a))"

text \<open>The field write \<^verbatim>\<open>v.level = l\<close> through a pointer \<open>v\<close>.\<close>

definition store_level :: "nat \<Rightarrow> LogLevel \<Rightarrow> 'f world \<Rightarrow> 'f world" where
  "store_level v l w =
     w\<lparr>packageLoggers := (packageLoggers w)[v := (packageLoggers w ! v)\<lparr>level := l\<rparr>]\<rparr>"

text \<open>\<^verbatim>\<open>func (r repoLogger) setRepoLogLevelInternal(l LogLevel)\<close>\<close>

definition setRepoLogLevelInternal :: "repoLogger \<Rightarrow> LogLevel \<Rightarrow> 'f world \<Rightarrow> 'f world" where
  "setRepoLogLevelInternal r l w =
     fold (\<lambda>(k, v) w. store_level v l w) (map_range (table w r)) w"

text \<open>\<^verbatim>\<open>func SetGlobalLogLevel(l LogLevel)\<close>\<close>

definition SetGlobalLogLevel :: "LogLevel \<Rightarrow> 'f world \<Rightarrow> 'f world" where
  "SetGlobalLogLevel l w =
     fold (\<lambda>(k, r) w. setRepoLogLevelInternal (Some r) l w) (map_range (repoMap (logger w))) w"

text \<open>
  \<^verbatim>\<open>func RepoLogger(repo string) (repoLogger, error)\<close>. It takes the lock, so it is a
  procedure on the state; the state it returns is part of its result.
\<close>

definition RepoLogger :: "string \<Rightarrow> 'f world \<Rightarrow> (repoLogger \<times> error option) \<times> 'f world" where
  "RepoLogger repo w =
     (case map_index (repoMap (logger w)) repo of
        None \<Rightarrow> ((None, Some (errors_New (''no packages registered for repo '' @ repo))), w)
      | Some r \<Rightarrow> ((Some r, None), w))"

text \<open>\<^verbatim>\<open>func MustRepoLogger(repo string) repoLogger\<close>: \<^verbatim>\<open>panic(err)\<close> is \<open>Inl\<close>.\<close>

definition MustRepoLogger :: "string \<Rightarrow> 'f world \<Rightarrow> (panic + repoLogger) \<times> 'f world" where
  "MustRepoLogger repo w =
     (case RepoLogger repo w of
        ((r, Some err), w') \<Rightarrow> (Inl (panic_error err), w')
      | ((r, None), w') \<Rightarrow> (Inr r, w'))"

text \<open>\<^verbatim>\<open>func (r repoLogger) SetRepoLogLevel(l LogLevel)\<close>\<close>

definition SetRepoLogLevel :: "repoLogger \<Rightarrow> LogLevel \<Rightarrow> 'f world \<Rightarrow> 'f world" where
  "SetRepoLogLevel r l w = setRepoLogLevelInternal r l w"

text \<open>
  \<^verbatim>\<open>func (r repoLogger) ParseLogLevelConfig(conf string) (map[string]LogLevel, error)\<close>.
  The loop over \<^verbatim>\<open>setlist\<close> with its two early returns is \<open>parse_settings\<close>; \<open>out\<close> is
  the map built so far. The method reads neither its receiver nor \<^verbatim>\<open>logger\<close> and takes no
  lock: it is a function of \<open>conf\<close>. A returned \<^verbatim>\<open>nil\<close> map is \<open>None\<close>.
\<close>

fun parse_settings ::
  "string list \<Rightarrow> (string \<times> LogLevel) list \<Rightarrow> (string \<times> LogLevel) list option \<times> error option"
where
  "parse_settings [] out = (Some out, None)"
| "parse_settings (setstring # setlist) out =
     (let setting = strings_Split setstring CHR ''='' in
      if length setting \<noteq> 2
      then (None, Some (errors_New (''oddly structured `pkg=level` option: '' @ setstring)))
      else (case ParseLevel (setting ! 1) of
              (l, Some err) \<Rightarrow> (None, Some err)
            | (l, None) \<Rightarrow> parse_settings setlist (AList.update (setting ! 0) l out)))"

text \<open>
  What one \<^verbatim>\<open>pkg=level\<close> token does in the loop body: the error it returns with, if any
  (the structural error first, else the error of \<^verbatim>\<open>ParseLevel\<close>), and the key and the
  level it stores otherwise. These name the parts of the body for the statements below.
\<close>

definition setting_error :: "string \<Rightarrow> error option" where
  "setting_error setstring =
     (let setting = strings_Split setstring CHR ''='' in
      if length setting \<noteq> 2
      then Some (errors_New (''oddly structured `pkg=level` option: '' @ setstring))
      else snd (ParseLevel (setting ! 1)))"

definition setting_key :: "string \<Rightarrow> string" where
  "setting_key setstring = strings_Split setstring CHR ''='' ! 0"

definition setting_level :: "string \<Rightarrow> LogLevel" where
  "setting_level setstring = fst (ParseLevel (strings_Split setstring CHR ''='' ! 1))"

definition ParseLogLevelConfig ::
  "repoLogger \<Rightarrow> string \<Rightarrow> (string \<times> LogLevel) list option \<times> error option"
where
  "ParseLogLevelConfig r conf = parse_settings (strings_Split conf CHR '','') []"

text \<open>
  \<^verbatim>\<open>func (r repoLogger) SetLogLevel(m map[string]LogLevel)\<close>. The loop visits every entry
  of \<open>m\<close>, the one under \<^verbatim>\<open>"*"\<close> included.
\<close>

definition SetLogLevel ::
  "repoLogger \<Rightarrow> (string \<times> LogLevel) list option \<Rightarrow> 'f world \<Rightarrow> 'f world"
where
  "SetLogLevel r m w =
     (let w1 = (case map_index m ''*'' of
                  Some l \<Rightarrow> setRepoLogLevelInternal r l w
                | None \<Rightarrow> w)
      in fold (\<lambda>(k, v) w. case map_index (table w r) k of
                             None \<Rightarrow> w
                           | Some l \<Rightarrow> store_level l v w)
              (map_range m) w1)"

text \<open>\<^verbatim>\<open>func SetFormatter(f Formatter)\<close>\<close>

definition SetFormatter :: "'f option \<Rightarrow> 'f world \<Rightarrow> 'f world" where
  "SetFormatter f w = w\<lparr>logger := (logger w)\<lparr>formatter := f\<rparr>\<rparr>"

text \<open>
  \<^verbatim>\<open>func NewPackageLogger(repo string, pkg string) (p *packageLogger)\<close>, in the source's
  three steps: make \<^verbatim>\<open>logger.repoMap\<close> if it is \<^verbatim>\<open>nil\<close>; find the repository's table or
  make an empty one; find the package's logger in it or allocate one at level \<^verbatim>\<open>INFO\<close>.
\<close>

definition NewPackageLogger :: "string \<Rightarrow> string \<Rightarrow> 'f world \<Rightarrow> nat \<times> 'f world" where
  "NewPackageLogger repo p_name w =
     (let w1 = (if repoMap (logger w) = None
                then w\<lparr>logger := (logger w)\<lparr>repoMap := Some []\<rparr>\<rparr>
                else w);
          (r, w2) = (case map_index (repoMap (logger w1)) repo of
                       Some r \<Rightarrow> (r, w1)
                     | None \<Rightarrow>
                         (let a = length (repoLoggers w1) in
                          (a, w1\<lparr>logger := (logger w1)\<lparr>repoMap :=
                                     Some (AList.update repo a (map_range (repoMap (logger w1))))\<rparr>,
                                 repoLoggers := repoLoggers w1 @ [[]]\<rparr>)))
      in case map_of (repoLoggers w2 ! r) p_name of
           Some p \<Rightarrow> (p, w2)
         | None \<Rightarrow>
             (let p = length (packageLoggers w2) in
              (p, w2\<lparr>packageLoggers := packageLoggers w2 @ [\<lparr>pkg = p_name, level = INFO\<rparr>],
                     repoLoggers := (repoLoggers w2)[r := AList.update p_name p (repoLoggers w2 ! r)]\<rparr>)))"

subsection \<open>Programs over the registry\<close>

text \<open>
  A client of the package is a sequence of calls of its exported functions, starting from
  the state \<^verbatim>\<open>new(loggerStruct)\<close>. \<open>exec\<close> is the effect of one call on the state (a
  panic of \<^verbatim>\<open>MustRepoLogger\<close>, if recovered, leaves the state as the lookup left it).
\<close>

datatype 'f call =
    Call_SetGlobalLogLevel LogLevel
  | Call_RepoLogger string
  | Call_MustRepoLogger string
  | Call_SetRepoLogLevel repoLogger LogLevel
  | Call_ParseLogLevelConfig repoLogger string
  | Call_SetLogLevel repoLogger "(string \<times> LogLevel) list option"
  | Call_SetFormatter "'f option"
  | Call_NewPackageLogger string string

fun exec :: "'f call \<Rightarrow> 'f world \<Rightarrow> 'f world" where
  "exec (Call_SetGlobalLogLevel l) w = SetGlobalLogLevel l w"
| "exec (Call_RepoLogger repo) w = snd (RepoLogger repo w)"
| "exec (Call_MustRepoLogger repo) w = snd (MustRepoLogger repo w)"
| "exec (Call_SetRepoLogLevel r l) w = SetRepoLogLevel r l w"
| "exec (Call_ParseLogLevelConfig r conf) w = w"
| "exec (Call_SetLogLevel r m) w = SetLogLevel r m w"
| "exec (Call_SetFormatter f) w = SetFormatter f w"
| "exec (Call_NewPackageLogger repo p_name) w = snd (NewPackageLogger repo p_name w)"

definition run :: "'f call list \<Rightarrow> 'f world \<Rightarrow> 'f world" where
  "run calls w = fold exec calls w"

text \<open>
  The shape of every state a program can reach: \<^verbatim>\<open>logger.repoMap\<close> and every table have
  distinct keys, every stored address is allocated, and no two entries of a table share a
  \<^verbatim>\<open>packageLogger\<close>.
\<close>

definition well_formed :: "'f world \<Rightarrow> bool" where
  "well_formed w \<longleftrightarrow>
     distinct (map fst (map_range (repoMap (logger w))))
     \<and> list_all (\<lambda>(k, a). a < length (repoLoggers w)) (map_range (repoMap (logger w)))
     \<and> list_all (\<lambda>t. distinct (map fst t) \<and> distinct (map snd t)
                     \<and> list_all (\<lambda>(k, p). p < length (packageLoggers w)) t) (repoLoggers w)"

text \<open>The level read through a pointer, \<^verbatim>\<open>p.level\<close>.\<close>

definition load_level :: "nat \<Rightarrow> 'f world \<Rightarrow> LogLevel" where
  "load_level p w = level (packageLoggers w ! p)"

text \<open>
  The pointer registered for a package of a repository: the two lookups of
  \<^verbatim>\<open>NewPackageLogger\<close>, \<^verbatim>\<open>logger.repoMap[repo]\<close> and then \<^verbatim>\<open>r[pkg]\<close>.
\<close>

definition find_logger :: "'f world \<Rightarrow> string \<Rightarrow> string \<Rightarrow> nat option" where
  "find_logger w repo p_name =
     (case map_index (repoMap (logger w)) repo of
        None \<Rightarrow> None
      | Some a \<Rightarrow> map_index (table w (Some a)) p_name)"

text \<open>No two repositories share a table: each entry of \<^verbatim>\<open>logger.repoMap\<close> has its own.\<close>

definition unshared :: "'f world \<Rightarrow> bool" where
  "unshared w \<longleftrightarrow> distinct (map snd (map_range (repoMap (logger w))))"

section \<open>Properties\<close>

subsection \<open>Levels and their serialisations\<close>

lemmas level_defs = CRITICAL_def ERROR_def WARNING_def NOTICE_def INFO_def DEBUG_def TRACE_def

text \<open>
  C9. \<^verbatim>\<open>Char\<close> gives each of the seven levels its own one-character string,
  \<open>C E W N I D T\<close> in the order of the constants, and panics with
  \<^verbatim>\<open>"Unhandled loglevel"\<close> on each of the other 249 values of \<^verbatim>\<open>int8\<close>.
\<close>

theorem Char_seven_levels:
  "LogLevel_Char CRITICAL = Inr ''C'' \<and> LogLevel_Char ERROR = Inr ''E'' \<and> LogLevel_Char WARNING = Inr ''W''
   \<and> LogLevel_Char NOTICE = Inr ''N'' \<and> LogLevel_Char INFO = Inr ''I'' \<and> LogLevel_Char DEBUG = Inr ''D''
   \<and> LogLevel_Char TRACE = Inr ''T''
   \<and> distinct (map LogLevel_Char levels)
   \<and> (\<forall>l \<in> set levels. \<exists>c. LogLevel_Char l = Inr [c])
   \<and> (\<forall>l. l \<notin> set levels \<longrightarrow> LogLevel_Char l = Inl (panic_string ''Unhandled loglevel''))"
  by (simp add: LogLevel_Char_def levels_def level_defs)

theorem Char_seven_levels_witness:
  "(6 :: LogLevel) \<notin> set levels \<and> LogLevel_Char 6 = Inl (panic_string ''Unhandled loglevel'')
   \<and> INFO \<in> set levels \<and> LogLevel_Char INFO = Inr [CHR ''I'']"
  using Char_seven_levels by (simp add: levels_def level_defs)

text \<open>
  C3. \<^verbatim>\<open>ParseLevel\<close> inverts the three serialisations. Each of the seven upper-case
  names parses to its level with a \<^verbatim>\<open>nil\<close> error; for each of the seven levels
  \<^verbatim>\<open>Char\<close> returns a string and that string parses back to the level; the digit strings
  \<open>0\<close> to \<open>5\<close> parse to \<^verbatim>\<open>ERROR\<close> to \<^verbatim>\<open>TRACE\<close>. \<^verbatim>\<open>CRITICAL\<close> has no digit alias:
  the only strings that parse to it without error are its name and its character, and its
  decimal value \<open>-1\<close> is rejected.
\<close>

theorem ParseLevel_left_inverse:
  "ParseLevel ''CRITICAL'' = (CRITICAL, None) \<and> ParseLevel ''ERROR'' = (ERROR, None)
   \<and> ParseLevel ''WARNING'' = (WARNING, None) \<and> ParseLevel ''NOTICE'' = (NOTICE, None)
   \<and> ParseLevel ''INFO'' = (INFO, None) \<and> ParseLevel ''DEBUG'' = (DEBUG, None)
   \<and> ParseLevel ''TRACE'' = (TRACE, None)
   \<and> (\<forall>l \<in> set levels. \<exists>c. LogLevel_Char l = Inr c \<and> ParseLevel c = (l, None))
   \<and> ParseLevel ''0'' = (ERROR, None) \<and> ParseLevel ''1'' = (WARNING, None)
   \<and> ParseLevel ''2'' = (NOTICE, None) \<and> ParseLevel ''3'' = (INFO, None)
   \<and> ParseLevel ''4'' = (DEBUG, None) \<and> ParseLevel ''5'' = (TRACE, None)
   \<and> (\<forall>s. ParseLevel s = (CRITICAL, None) \<longrightarrow> s = ''CRITICAL'' \<or> s = ''C'')
   \<and> snd (ParseLevel ''-1'') \<noteq> None"
  by (simp add: ParseLevel_def LogLevel_Char_def levels_def level_defs)

theorem ParseLevel_left_inverse_witness:
  "DEBUG \<in> set levels \<and> LogLevel_Char DEBUG = Inr ''D'' \<and> ParseLevel ''D'' = (DEBUG, None)
   \<and> ParseLevel ''C'' = (CRITICAL, None)"
proof -
  have mem: "DEBUG \<in> set levels"
    by (simp add: levels_def)
  from ParseLevel_left_inverse mem
  obtain c where "LogLevel_Char DEBUG = Inr c" and "ParseLevel c = (DEBUG, None)"
    by blast
  moreover have "LogLevel_Char DEBUG = Inr ''D''"
    by (simp add: LogLevel_Char_def level_defs)
  moreover have "ParseLevel ''C'' = (CRITICAL, None)"
    by (simp add: ParseLevel_def)
  ultimately show ?thesis
    using mem by simp
qed

text \<open>
  C8. A string that is none of the twenty accepted forms (seven names, seven characters,
  six digits) is rejected with an ordinary \<^verbatim>\<open>error\<close> value, not a panic: the second
  component of the result is the error \<^verbatim>\<open>"couldn't parse log level "\<close> followed by the
  input, so the input is a suffix of the message. The first component is \<^verbatim>\<open>CRITICAL\<close>.
\<close>

theorem ParseLevel_rejects:
  "s \<notin> {''CRITICAL'', ''ERROR'', ''WARNING'', ''NOTICE'', ''INFO'', ''DEBUG'', ''TRACE'',
         ''C'', ''E'', ''W'', ''N'', ''I'', ''D'', ''T'', ''0'', ''1'', ''2'', ''3'', ''4'', ''5''}
   \<Longrightarrow> ParseLevel s = (CRITICAL, Some (errors_New (''couldn't parse log level '' @ s)))
       \<and> (\<exists>msg. snd (ParseLevel s) = Some (errors_New msg) \<and> suffix s msg)"
  by (simp add: ParseLevel_def suffix_def)

theorem ParseLevel_rejects_witness:
  "ParseLevel ''bogus'' = (CRITICAL, Some (errors_New ''couldn't parse log level bogus''))
   \<and> suffix ''bogus'' ''couldn't parse log level bogus''"
proof -
  have "ParseLevel ''bogus'' = (CRITICAL, Some (errors_New (''couldn't parse log level '' @ ''bogus'')))"
    using ParseLevel_rejects [of "''bogus''"] by simp
  moreover have "suffix ''bogus'' (''couldn't parse log level '' @ ''bogus'')"
    by (rule suffix_appendI) simp
  ultimately show ?thesis by simp
qed

subsection \<open>Parsing a level configuration\<close>

lemma strings_Split_nonempty: "strings_Split s c \<noteq> []"
  by (induction s) (auto split: list.splits)

lemma strings_Split_append: "strings_Split (a @ c # b) c = strings_Split a c @ strings_Split b c"
proof (induction a)
  case Nil
  show ?case by simp
next
  case (Cons x a)
  show ?case
  proof (cases "x = c")
    case True
    with Cons show ?thesis by simp
  next
    case False
    obtain t ts where ts: "strings_Split a c = t # ts"
      using strings_Split_nonempty [of a c] by (cases "strings_Split a c") auto
    with False Cons show ?thesis by simp
  qed
qed

lemma strings_Split_no_sep: "c \<notin> set a \<Longrightarrow> strings_Split a c = [a]"
  by (induction a) auto

lemma strings_Split_tokens: "t \<in> set (strings_Split s c) \<Longrightarrow> c \<notin> set t"
proof (induction s arbitrary: t)
  case Nil
  then show ?case by simp
next
  case (Cons x s)
  then show ?case
    by (cases "strings_Split s c") (auto split: if_splits)
qed

lemma parse_settings_all_ok:
  "\<forall>t \<in> set ts. setting_error t = None \<Longrightarrow>
   parse_settings ts out =
     (Some (fold (\<lambda>t. AList.update (setting_key t) (setting_level t)) ts out), None)"
proof (induction ts arbitrary: out)
  case Nil
  show ?case by simp
next
  case (Cons t ts)
  from Cons.prems have ok: "setting_error t = None" and rest: "\<forall>u \<in> set ts. setting_error u = None"
    by simp_all
  from ok have len: "length (strings_Split t CHR ''='') = 2"
    and lev: "snd (ParseLevel (strings_Split t CHR ''='' ! 1)) = None"
    by (auto simp: setting_error_def Let_def split: if_splits)
  obtain l where pl: "ParseLevel (strings_Split t CHR ''='' ! 1) = (l, None)"
    using lev by (cases "ParseLevel (strings_Split t CHR ''='' ! 1)") auto
  show ?case
    using len pl Cons.IH [OF rest]
    by (simp add: Let_def setting_key_def setting_level_def)
qed

lemma parse_settings_first_error:
  "\<forall>u \<in> set pre. setting_error u = None \<Longrightarrow> setting_error t = Some e \<Longrightarrow>
   parse_settings (pre @ t # post) out = (None, Some e)"
proof (induction pre arbitrary: out)
  case Nil
  then show ?case
    by (cases "ParseLevel (strings_Split t CHR ''='' ! 1)")
       (auto simp: setting_error_def Let_def split: if_splits)
next
  case (Cons u pre)
  from Cons.prems have ok: "setting_error u = None" by simp
  from ok have len: "length (strings_Split u CHR ''='') = 2"
    and lev: "snd (ParseLevel (strings_Split u CHR ''='' ! 1)) = None"
    by (auto simp: setting_error_def Let_def split: if_splits)
  obtain l where pl: "ParseLevel (strings_Split u CHR ''='' ! 1) = (l, None)"
    using lev by (cases "ParseLevel (strings_Split u CHR ''='' ! 1)") auto
  show ?case
    using len pl Cons.IH Cons.prems by (simp add: Let_def)
qed

lemma first_error_split:
  "\<exists>t \<in> set ts. setting_error t \<noteq> None \<Longrightarrow>
   \<exists>pre t post e. ts = pre @ t # post \<and> (\<forall>u \<in> set pre. setting_error u = None) \<and> setting_error t = Some e"
proof (induction ts)
  case Nil
  then show ?case by simp
next
  case (Cons a ts)
  show ?case
  proof (cases "setting_error a")
    case (Some e)
    then have "a # ts = [] @ a # ts \<and> (\<forall>u \<in> set []. setting_error u = None) \<and> setting_error a = Some e"
      by simp
    then show ?thesis by blast
  next
    case None
    with Cons.prems have "\<exists>t \<in> set ts. setting_error t \<noteq> None" by auto
    from Cons.IH [OF this] obtain pre t post e where
      "ts = pre @ t # post" "\<forall>u \<in> set pre. setting_error u = None" "setting_error t = Some e"
      by blast
    with None have "a # ts = (a # pre) @ t # post \<and> (\<forall>u \<in> set (a # pre). setting_error u = None) \<and> setting_error t = Some e"
      by simp
    then show ?thesis by blast
  qed
qed

lemma map_of_fold_update:
  "map_of (fold (\<lambda>t. AList.update (f t) (g t)) ts out) = map_of out ++ map_of (rev (map (\<lambda>t. (f t, g t)) ts))"
proof (induction ts arbitrary: out)
  case Nil
  show ?case by simp
next
  case (Cons t ts)
  show ?case
    by (simp add: Cons.IH update_conv' map_add_upd_left fun_eq_iff map_add_def split: option.splits)
qed

lemma distinct_fold_update:
  "distinct (map fst out) \<Longrightarrow> distinct (map fst (fold (\<lambda>t. AList.update (f t) (g t)) ts out))"
  by (induction ts arbitrary: out) (simp_all add: distinct_update)


text \<open>
  C7. \<^verbatim>\<open>ParseLogLevelConfig\<close> works on the tokens \<^verbatim>\<open>strings.Split(conf, ",")\<close>, which are
  the pieces of \<open>conf\<close> between the commas in input order (the first two conjuncts
  determine the split). A token that does not split into exactly two parts at \<^verbatim>\<open>=\<close> has the
  structural error whose message ends with the token; a token that does has the error of
  \<^verbatim>\<open>ParseLevel\<close> on its second part, if any. The call returns the error of the first
  token that has one, together with the \<^verbatim>\<open>nil\<close> map, whatever the tokens before it stored
  and whatever follows; so any offending token makes the call fail with no map. When no
  token has an error the call returns, with a \<^verbatim>\<open>nil\<close> error, a map with distinct keys in
  which each package name has the level of its last token. The method is a function of
  \<open>conf\<close> alone: a call leaves the registry state as it was.
\<close>

theorem ParseLogLevelConfig_result:
  "(\<forall>a b. strings_Split (a @ CHR '','' # b) CHR '','' = strings_Split a CHR '','' @ strings_Split b CHR '','')
   \<and> (\<forall>a. CHR '','' \<notin> set a \<longrightarrow> strings_Split a CHR '','' = [a])
   \<and> (\<forall>t. length (strings_Split t CHR ''='') \<noteq> 2 \<longrightarrow>
          setting_error t = Some (errors_New (''oddly structured `pkg=level` option: '' @ t)))
   \<and> (\<forall>t. length (strings_Split t CHR ''='') = 2 \<longrightarrow>
          setting_error t = snd (ParseLevel (strings_Split t CHR ''='' ! 1)))
   \<and> (\<forall>pre t post e.
          strings_Split conf CHR '','' = pre @ t # post
          \<and> (\<forall>u \<in> set pre. setting_error u = None) \<and> setting_error t = Some e
          \<longrightarrow> ParseLogLevelConfig r conf = (None, Some e))
   \<and> ((\<exists>t \<in> set (strings_Split conf CHR '',''). setting_error t \<noteq> None)
          \<longrightarrow> fst (ParseLogLevelConfig r conf) = None \<and> snd (ParseLogLevelConfig r conf) \<noteq> None)
   \<and> ((\<forall>t \<in> set (strings_Split conf CHR '',''). setting_error t = None)
          \<longrightarrow> (\<exists>out. ParseLogLevelConfig r conf = (Some out, None)
                 \<and> distinct (map fst out)
                 \<and> map_of out = map_of (rev (map (\<lambda>t. (setting_key t, setting_level t))
                                                   (strings_Split conf CHR '','')))))
   \<and> exec (Call_ParseLogLevelConfig r conf) w = w"
proof -
  have structural: "\<forall>t. length (strings_Split t CHR ''='') \<noteq> 2 \<longrightarrow>
      setting_error t = Some (errors_New (''oddly structured `pkg=level` option: '' @ t))"
    by (simp add: setting_error_def)
  have propagated: "\<forall>t. length (strings_Split t CHR ''='') = 2 \<longrightarrow>
      setting_error t = snd (ParseLevel (strings_Split t CHR ''='' ! 1))"
    by (simp add: setting_error_def)
  have first: "\<forall>pre t post e.
      strings_Split conf CHR '','' = pre @ t # post
      \<and> (\<forall>u \<in> set pre. setting_error u = None) \<and> setting_error t = Some e
      \<longrightarrow> ParseLogLevelConfig r conf = (None, Some e)"
    by (simp add: ParseLogLevelConfig_def parse_settings_first_error)
  have some: "(\<exists>t \<in> set (strings_Split conf CHR '',''). setting_error t \<noteq> None)
      \<longrightarrow> fst (ParseLogLevelConfig r conf) = None \<and> snd (ParseLogLevelConfig r conf) \<noteq> None"
  proof
    assume "\<exists>t \<in> set (strings_Split conf CHR '',''). setting_error t \<noteq> None"
    from first_error_split [OF this] obtain pre t post e where
      "strings_Split conf CHR '','' = pre @ t # post"
      "\<forall>u \<in> set pre. setting_error u = None" "setting_error t = Some e"
      by blast
    with first have "ParseLogLevelConfig r conf = (None, Some e)" by blast
    then show "fst (ParseLogLevelConfig r conf) = None \<and> snd (ParseLogLevelConfig r conf) \<noteq> None"
      by simp
  qed
  have good: "(\<forall>t \<in> set (strings_Split conf CHR '',''). setting_error t = None)
      \<longrightarrow> (\<exists>out. ParseLogLevelConfig r conf = (Some out, None)
             \<and> distinct (map fst out)
             \<and> map_of out = map_of (rev (map (\<lambda>t. (setting_key t, setting_level t))
                                               (strings_Split conf CHR '',''))))"
  proof
    assume ok: "\<forall>t \<in> set (strings_Split conf CHR '',''). setting_error t = None"
    let ?out = "fold (\<lambda>t. AList.update (setting_key t) (setting_level t)) (strings_Split conf CHR '','') []"
    have "ParseLogLevelConfig r conf = (Some ?out, None)"
      using parse_settings_all_ok [OF ok] by (simp add: ParseLogLevelConfig_def)
    moreover have "distinct (map fst ?out)"
      by (rule distinct_fold_update) simp
    moreover have "map_of ?out = map_of (rev (map (\<lambda>t. (setting_key t, setting_level t))
                                               (strings_Split conf CHR '','')))"
      by (simp add: map_of_fold_update)
    ultimately show "\<exists>out. ParseLogLevelConfig r conf = (Some out, None)
             \<and> distinct (map fst out)
             \<and> map_of out = map_of (rev (map (\<lambda>t. (setting_key t, setting_level t))
                                               (strings_Split conf CHR '','')))"
      by blast
  qed
  have pure: "exec (Call_ParseLogLevelConfig r conf) w = w"
    by simp
  have app: "\<forall>a b. strings_Split (a @ CHR '','' # b) CHR '','' = strings_Split a CHR '','' @ strings_Split b CHR '',''"
    by (simp add: strings_Split_append)
  have nosep: "\<forall>a. CHR '','' \<notin> set a \<longrightarrow> strings_Split a CHR '','' = [a]"
    by (simp add: strings_Split_no_sep)
  show ?thesis
    by (intro conjI; fact)
qed

theorem ParseLogLevelConfig_result_witness:
  "ParseLogLevelConfig None ''a=INFO=extra''
     = (None, Some (errors_New ''oddly structured `pkg=level` option: a=INFO=extra''))
   \<and> ParseLogLevelConfig None ''a=INFO,b=bogus,c''
     = (None, Some (errors_New ''couldn't parse log level bogus''))
   \<and> (\<exists>out. ParseLogLevelConfig None ''a=INFO,b=T,a=0'' = (Some out, None)
          \<and> map_of out ''a'' = Some ERROR \<and> map_of out ''b'' = Some TRACE \<and> map_of out ''c'' = None)"
proof -
  note first = ParseLogLevelConfig_result
    [THEN conjunct2, THEN conjunct2, THEN conjunct2, THEN conjunct2, THEN conjunct1, rule_format]
  note good = ParseLogLevelConfig_result
    [THEN conjunct2, THEN conjunct2, THEN conjunct2, THEN conjunct2, THEN conjunct2,
     THEN conjunct2, THEN conjunct1, rule_format]
  have r1: "ParseLogLevelConfig None ''a=INFO=extra''
     = (None, Some (errors_New ''oddly structured `pkg=level` option: a=INFO=extra''))"
    by (rule first [of "''a=INFO=extra''" "[]" "''a=INFO=extra''" "[]"])
       (simp add: setting_error_def)
  have r2: "ParseLogLevelConfig None ''a=INFO,b=bogus,c''
     = (None, Some (errors_New ''couldn't parse log level bogus''))"
    by (rule first [of "''a=INFO,b=bogus,c''" "[''a=INFO'']" "''b=bogus''" "[''c'']"])
       (simp add: setting_error_def ParseLevel_def)
  have ok: "\<forall>t \<in> set (strings_Split ''a=INFO,b=T,a=0'' CHR '',''). setting_error t = None"
    by (simp add: setting_error_def ParseLevel_def)
  from good [of "''a=INFO,b=T,a=0''" None, OF ok [rule_format]]
  obtain out where o: "ParseLogLevelConfig None ''a=INFO,b=T,a=0'' = (Some out, None)"
    and m: "map_of out = map_of (rev (map (\<lambda>t. (setting_key t, setting_level t))
                                       (strings_Split ''a=INFO,b=T,a=0'' CHR '','')))"
    by blast
  have "map_of out ''a'' = Some ERROR \<and> map_of out ''b'' = Some TRACE \<and> map_of out ''c'' = None"
    unfolding m by (simp add: setting_key_def setting_level_def ParseLevel_def)
  with o r1 r2 show ?thesis by blast
qed

lemma setting_error_empty:
  "setting_error [] = Some (errors_New ''oddly structured `pkg=level` option: '')"
  by (simp add: setting_error_def)

text \<open>
  C10. The empty configuration is rejected: \<^verbatim>\<open>strings.Split("", ",")\<close> is the one empty
  token, the empty token splits at \<^verbatim>\<open>=\<close> into one part and not two, and the call returns
  the \<^verbatim>\<open>nil\<close> map with the structural error for the empty token, not an empty map.
  A leading, a trailing and a doubled comma each put an empty token into the token list,
  and every configuration with an empty token is rejected with the \<^verbatim>\<open>nil\<close> map and an
  error; the error is the structural one for the empty token when no token before it has
  an error of its own.
\<close>

theorem ParseLogLevelConfig_empty_token:
  "ParseLogLevelConfig r [] = (None, Some (errors_New ''oddly structured `pkg=level` option: ''))
   \<and> strings_Split [] CHR '','' = [[]]
   \<and> length (strings_Split [] CHR ''='') \<noteq> 2
   \<and> [] \<in> set (strings_Split (CHR '','' # s) CHR '','')
   \<and> [] \<in> set (strings_Split (s @ '','') CHR '','')
   \<and> [] \<in> set (strings_Split (a @ '',,'' @ b) CHR '','')
   \<and> ([] \<in> set (strings_Split conf CHR '','')
        \<longrightarrow> fst (ParseLogLevelConfig r conf) = None \<and> snd (ParseLogLevelConfig r conf) \<noteq> None)
   \<and> (\<forall>pre post. strings_Split conf CHR '','' = pre @ [] # post
          \<and> (\<forall>u \<in> set pre. setting_error u = None)
        \<longrightarrow> ParseLogLevelConfig r conf
              = (None, Some (errors_New ''oddly structured `pkg=level` option: '')))"
proof -
  have empty_conf: "ParseLogLevelConfig r [] = (None, Some (errors_New ''oddly structured `pkg=level` option: ''))"
    by (simp add: ParseLogLevelConfig_def)
  have one_token: "strings_Split [] CHR '','' = [[]]"
    by simp
  have not_two: "length (strings_Split [] CHR ''='') \<noteq> 2"
    by simp
  have leading: "[] \<in> set (strings_Split (CHR '','' # s) CHR '','')"
    by simp
  have trailing: "[] \<in> set (strings_Split (s @ '','') CHR '','')"
    using strings_Split_append [of s "CHR '',''" "[]"] by simp
  have doubled: "[] \<in> set (strings_Split (a @ '',,'' @ b) CHR '','')"
    using strings_Split_append [of a "CHR '',''" "CHR '','' # b"] by simp
  have rejected: "[] \<in> set (strings_Split conf CHR '','')
        \<longrightarrow> fst (ParseLogLevelConfig r conf) = None \<and> snd (ParseLogLevelConfig r conf) \<noteq> None"
  proof
    assume "[] \<in> set (strings_Split conf CHR '','')"
    with setting_error_empty
    have "\<exists>t \<in> set (strings_Split conf CHR '',''). setting_error t \<noteq> None"
      by (intro bexI [of _ "[]"]) simp_all
    from first_error_split [OF this] obtain pre t post e where
      "strings_Split conf CHR '','' = pre @ t # post"
      "\<forall>u \<in> set pre. setting_error u = None" "setting_error t = Some e"
      by blast
    then have "ParseLogLevelConfig r conf = (None, Some e)"
      by (simp add: ParseLogLevelConfig_def parse_settings_first_error)
    then show "fst (ParseLogLevelConfig r conf) = None \<and> snd (ParseLogLevelConfig r conf) \<noteq> None"
      by simp
  qed
  have structural: "\<forall>pre post. strings_Split conf CHR '','' = pre @ [] # post
          \<and> (\<forall>u \<in> set pre. setting_error u = None)
        \<longrightarrow> ParseLogLevelConfig r conf
              = (None, Some (errors_New ''oddly structured `pkg=level` option: ''))"
    using setting_error_empty
    by (simp add: ParseLogLevelConfig_def parse_settings_first_error)
  show ?thesis
    by (intro conjI; fact)
qed

theorem ParseLogLevelConfig_empty_token_witness:
  "[] \<in> set (strings_Split ''a=INFO,,b=bogus'' CHR '','')
   \<and> ParseLogLevelConfig None ''a=INFO,,b=bogus''
       = (None, Some (errors_New ''oddly structured `pkg=level` option: ''))
   \<and> [] \<in> set (strings_Split ''x=bogus,'' CHR '','')
   \<and> fst (ParseLogLevelConfig None ''x=bogus,'') = None
   \<and> snd (ParseLogLevelConfig None ''x=bogus,'') \<noteq> None"
proof -
  note rejected = ParseLogLevelConfig_empty_token
    [THEN conjunct2, THEN conjunct2, THEN conjunct2, THEN conjunct2, THEN conjunct2,
     THEN conjunct2, THEN conjunct1, rule_format]
  note structural = ParseLogLevelConfig_empty_token
    [THEN conjunct2, THEN conjunct2, THEN conjunct2, THEN conjunct2, THEN conjunct2,
     THEN conjunct2, THEN conjunct2, rule_format]
  have m1: "[] \<in> set (strings_Split ''a=INFO,,b=bogus'' CHR '','')"
    by simp
  have r1: "ParseLogLevelConfig None ''a=INFO,,b=bogus''
       = (None, Some (errors_New ''oddly structured `pkg=level` option: ''))"
    by (rule structural [where conf = "''a=INFO,,b=bogus''" and pre = "[''a=INFO'']" and post = "[''b=bogus'']"])
       (simp add: setting_error_def ParseLevel_def)
  have m2: "[] \<in> set (strings_Split ''x=bogus,'' CHR '','')"
    by simp
  from rejected [where conf = "''x=bogus,''" and r = None, OF m2] m1 r1 m2
  show ?thesis by simp
qed

subsection \<open>The registry\<close>

lemma store_level_frame [simp]:
  "logger (store_level v l w) = logger w"
  "repoLoggers (store_level v l w) = repoLoggers w"
  "length (packageLoggers (store_level v l w)) = length (packageLoggers w)"
  "table (store_level v l w) r = table w r"
  by (simp_all add: store_level_def table_def split: option.splits)

lemma load_store_level:
  "load_level p (store_level v l w) =
     (if p = v \<and> v < length (packageLoggers w) then l else load_level p w)"
  by (cases "v < length (packageLoggers w)")
     (auto simp: load_level_def store_level_def nth_list_update list_update_beyond)

lemma fold_store_frame [simp]:
  "logger (fold (\<lambda>(k, v) w. store_level v l w) ps w) = logger w"
  "repoLoggers (fold (\<lambda>(k, v) w. store_level v l w) ps w) = repoLoggers w"
  "length (packageLoggers (fold (\<lambda>(k, v) w. store_level v l w) ps w)) = length (packageLoggers w)"
  by (induction ps arbitrary: w; simp add: case_prod_beta)+

lemma load_fold_store:
  "load_level p (fold (\<lambda>(k, v) w. store_level v l w) ps w) =
     (if p \<in> snd ` set ps \<and> p < length (packageLoggers w) then l else load_level p w)"
proof (induction ps arbitrary: w)
  case Nil
  show ?case by simp
next
  case (Cons kv ps)
  show ?case
    by (cases kv) (auto simp: Cons.IH load_store_level)
qed

lemma setRepoLogLevelInternal_frame [simp]:
  "logger (setRepoLogLevelInternal r l w) = logger w"
  "repoLoggers (setRepoLogLevelInternal r l w) = repoLoggers w"
  "length (packageLoggers (setRepoLogLevelInternal r l w)) = length (packageLoggers w)"
  by (simp_all add: setRepoLogLevelInternal_def)

lemma table_setRepoLogLevelInternal [simp]:
  "table (setRepoLogLevelInternal r l w) r' = table w r'"
  by (simp add: table_def split: option.splits)

lemma load_setRepoLogLevelInternal:
  "load_level p (setRepoLogLevelInternal r l w) =
     (if p \<in> snd ` set (map_range (table w r)) \<and> p < length (packageLoggers w) then l
      else load_level p w)"
  by (simp add: setRepoLogLevelInternal_def load_fold_store)

lemma fold_setRepo_frame [simp]:
  "logger (fold (\<lambda>(k, r) w. setRepoLogLevelInternal (Some r) l w) rs w) = logger w"
  "repoLoggers (fold (\<lambda>(k, r) w. setRepoLogLevelInternal (Some r) l w) rs w) = repoLoggers w"
  "length (packageLoggers (fold (\<lambda>(k, r) w. setRepoLogLevelInternal (Some r) l w) rs w))
     = length (packageLoggers w)"
  by (induction rs arbitrary: w; simp add: case_prod_beta)+

lemma load_fold_setRepo:
  "load_level p (fold (\<lambda>(k, r) w. setRepoLogLevelInternal (Some r) l w) rs w) =
     (if p < length (packageLoggers w)
         \<and> (\<exists>a \<in> snd ` set rs. p \<in> snd ` set (repoLoggers w ! a))
      then l else load_level p w)"
proof (induction rs arbitrary: w)
  case Nil
  show ?case by simp
next
  case (Cons kr rs)
  show ?case
    by (cases kr)
       (auto simp: Cons.IH load_setRepoLogLevelInternal table_def map_range_def)
qed

lemma SetGlobalLogLevel_frame [simp]:
  "logger (SetGlobalLogLevel l w) = logger w"
  "repoLoggers (SetGlobalLogLevel l w) = repoLoggers w"
  "length (packageLoggers (SetGlobalLogLevel l w)) = length (packageLoggers w)"
  by (simp_all add: SetGlobalLogLevel_def)

lemma map_index_SomeD: "map_index m k = Some v \<Longrightarrow> (k, v) \<in> set (map_range m)"
  by (auto simp: map_index_def map_range_def split: option.splits dest: map_of_SomeD)

lemma map_index_None_iff: "map_index m k = None \<longleftrightarrow> k \<notin> fst ` set (map_range m)"
  by (auto simp: map_index_def map_range_def map_of_eq_None_iff split: option.splits)

lemma well_formed_repo_bound:
  "well_formed w \<Longrightarrow> map_index (repoMap (logger w)) repo = Some a \<Longrightarrow> a < length (repoLoggers w)"
  by (auto simp: well_formed_def list_all_iff dest!: map_index_SomeD)

lemma well_formed_ptr_bound:
  "well_formed w \<Longrightarrow> a < length (repoLoggers w) \<Longrightarrow> map_of (repoLoggers w ! a) k = Some p
   \<Longrightarrow> p < length (packageLoggers w)"
  by (auto simp: well_formed_def list_all_iff dest!: map_of_SomeD)

lemma map_pkg_store_level [simp]:
  "map pkg (packageLoggers (store_level v l w)) = map pkg (packageLoggers w)"
proof (cases "v < length (packageLoggers w)")
  case True
  then have "(map pkg (packageLoggers w))[v := pkg (packageLoggers w ! v)] = map pkg (packageLoggers w)"
    by (metis list_update_id nth_map)
  then show ?thesis
    by (simp add: store_level_def map_update)
next
  case False
  then show ?thesis
    by (simp add: store_level_def list_update_beyond)
qed

lemma map_pkg_fold_store [simp]:
  "map pkg (packageLoggers (fold (\<lambda>(k, v) w. store_level v l w) ps w)) = map pkg (packageLoggers w)"
  by (induction ps arbitrary: w) (simp_all add: case_prod_beta)

lemma map_pkg_setRepoLogLevelInternal [simp]:
  "map pkg (packageLoggers (setRepoLogLevelInternal r l w)) = map pkg (packageLoggers w)"
  by (simp add: setRepoLogLevelInternal_def)

lemma map_pkg_SetGlobalLogLevel [simp]:
  "map pkg (packageLoggers (SetGlobalLogLevel l w)) = map pkg (packageLoggers w)"
proof -
  have "map pkg (packageLoggers (fold (\<lambda>(k, r) w. setRepoLogLevelInternal (Some r) l w) rs w))
      = map pkg (packageLoggers w)" for rs
    by (induction rs arbitrary: w) (simp_all add: case_prod_beta)
  then show ?thesis
    by (simp add: SetGlobalLogLevel_def)
qed

text \<open>
  C4. After \<^verbatim>\<open>SetGlobalLogLevel(l)\<close> every \<^verbatim>\<open>packageLogger\<close> found under any package
  name in any repository of \<^verbatim>\<open>logger.repoMap\<close> has level \<open>l\<close>, whatever level it had.
  The function is total and has no error or panic result; it changes nothing but levels:
  the registry maps, the tables and the package names are as before.
\<close>

theorem SetGlobalLogLevel_sets_all:
  "(well_formed w \<and> map_index (repoMap (logger w)) repo = Some a
      \<and> map_index (table w (Some a)) p_name = Some p
    \<longrightarrow> load_level p (SetGlobalLogLevel l w) = l)
   \<and> logger (SetGlobalLogLevel l w) = logger w
   \<and> repoLoggers (SetGlobalLogLevel l w) = repoLoggers w
   \<and> map pkg (packageLoggers (SetGlobalLogLevel l w)) = map pkg (packageLoggers w)"
proof -
  have "load_level p (SetGlobalLogLevel l w) = l"
    if wf: "well_formed w" and repo: "map_index (repoMap (logger w)) repo = Some a"
      and entry: "map_index (table w (Some a)) p_name = Some p"
  proof -
    from entry have lookup: "map_of (repoLoggers w ! a) p_name = Some p"
      by (simp add: table_def map_index_def)
    have a: "a < length (repoLoggers w)"
      using wf repo by (rule well_formed_repo_bound)
    have p: "p < length (packageLoggers w)"
      using wf a lookup by (rule well_formed_ptr_bound)
    have "a \<in> snd ` set (map_range (repoMap (logger w)))"
      using map_index_SomeD [OF repo] by force
    moreover have "p \<in> snd ` set (repoLoggers w ! a)"
      using map_of_SomeD [OF lookup] by force
    ultimately show ?thesis
      using p by (auto simp: SetGlobalLogLevel_def load_fold_setRepo)
  qed
  then show ?thesis
    by simp
qed


theorem SetGlobalLogLevel_sets_all_witness:
  "well_formed
     (\<lparr>logger = \<lparr>repoMap = Some [(''A'', 0), (''B'', 1)], formatter = None\<rparr>,
       repoLoggers = [[(''x'', 0)], [(''y'', 1), (''z'', 2)]],
       packageLoggers = [\<lparr>pkg = ''x'', level = DEBUG\<rparr>, \<lparr>pkg = ''y'', level = ERROR\<rparr>,
                         \<lparr>pkg = ''z'', level = INFO\<rparr>]\<rparr> :: unit world)
   \<and> load_level 1
        (\<lparr>logger = \<lparr>repoMap = Some [(''A'', 0), (''B'', 1)], formatter = None\<rparr>,
          repoLoggers = [[(''x'', 0)], [(''y'', 1), (''z'', 2)]],
          packageLoggers = [\<lparr>pkg = ''x'', level = DEBUG\<rparr>, \<lparr>pkg = ''y'', level = ERROR\<rparr>,
                            \<lparr>pkg = ''z'', level = INFO\<rparr>]\<rparr> :: unit world) = ERROR
   \<and> load_level 1
        (SetGlobalLogLevel WARNING
          (\<lparr>logger = \<lparr>repoMap = Some [(''A'', 0), (''B'', 1)], formatter = None\<rparr>,
            repoLoggers = [[(''x'', 0)], [(''y'', 1), (''z'', 2)]],
            packageLoggers = [\<lparr>pkg = ''x'', level = DEBUG\<rparr>, \<lparr>pkg = ''y'', level = ERROR\<rparr>,
                              \<lparr>pkg = ''z'', level = INFO\<rparr>]\<rparr> :: unit world)) = WARNING"
proof -
  let ?w = "\<lparr>logger = \<lparr>repoMap = Some [(''A'', 0), (''B'', 1)], formatter = None\<rparr>,
       repoLoggers = [[(''x'', 0)], [(''y'', 1), (''z'', 2)]],
       packageLoggers = [\<lparr>pkg = ''x'', level = DEBUG\<rparr>, \<lparr>pkg = ''y'', level = ERROR\<rparr>,
                         \<lparr>pkg = ''z'', level = INFO\<rparr>]\<rparr> :: unit world"
  have wf: "well_formed ?w"
    by (simp add: well_formed_def map_range_def)
  have repo: "map_index (repoMap (logger ?w)) ''B'' = Some 1"
    by (simp add: map_index_def)
  have entry: "map_index (table ?w (Some 1)) ''y'' = Some 1"
    by (simp add: map_index_def table_def)
  have before: "load_level 1 ?w = ERROR"
    by (simp add: load_level_def)
  from SetGlobalLogLevel_sets_all [of ?w "''B''" 1 "''y''" 1 WARNING] wf repo entry
  have "load_level 1 (SetGlobalLogLevel WARNING ?w) = WARNING"
    by blast
  with wf before show ?thesis
    by blast
qed

lemma well_formed_store_level [simp]: "well_formed (store_level v l w) = well_formed w"
  by (simp add: well_formed_def)

lemma well_formed_fold_store [simp]:
  "well_formed (fold (\<lambda>(k, v) w. store_level v l w) ps w) = well_formed w"
  by (simp add: well_formed_def)

lemma well_formed_setRepoLogLevelInternal [simp]:
  "well_formed (setRepoLogLevelInternal r l w) = well_formed w"
  by (simp add: well_formed_def)

lemma well_formed_SetGlobalLogLevel [simp]:
  "well_formed (SetGlobalLogLevel l w) = well_formed w"
  by (simp add: well_formed_def)

lemma well_formed_logger_new: "well_formed logger_new"
  by (simp add: well_formed_def logger_new_def map_range_def)

text \<open>The three cases of \<^verbatim>\<open>NewPackageLogger\<close>.\<close>

lemma NewPackageLogger_known:
  assumes "map_index (repoMap (logger w)) repo = Some a"
    and "map_of (repoLoggers w ! a) p_name = Some q"
  shows "NewPackageLogger repo p_name w = (q, w)"
  using assms by (auto simp: NewPackageLogger_def map_index_def split: option.splits)

lemma NewPackageLogger_new_package:
  assumes "map_index (repoMap (logger w)) repo = Some a"
    and "map_of (repoLoggers w ! a) p_name = None"
  shows "NewPackageLogger repo p_name w =
     (length (packageLoggers w),
      w\<lparr>packageLoggers := packageLoggers w @ [\<lparr>pkg = p_name, level = INFO\<rparr>],
        repoLoggers := (repoLoggers w)[a := AList.update p_name (length (packageLoggers w)) (repoLoggers w ! a)]\<rparr>)"
  using assms by (auto simp: NewPackageLogger_def map_index_def Let_def split: option.splits)

lemma NewPackageLogger_new_repo:
  assumes "map_index (repoMap (logger w)) repo = None"
  shows "NewPackageLogger repo p_name w =
     (length (packageLoggers w),
      w\<lparr>logger := (logger w)\<lparr>repoMap :=
             Some (AList.update repo (length (repoLoggers w)) (map_range (repoMap (logger w))))\<rparr>,
        packageLoggers := packageLoggers w @ [\<lparr>pkg = p_name, level = INFO\<rparr>],
        repoLoggers := repoLoggers w @ [[(p_name, length (packageLoggers w))]]\<rparr>)"
  using assms
  by (auto simp: NewPackageLogger_def map_index_def map_range_def Let_def split: option.splits)


lemma map_range_simps [simp]: "map_range None = []" "map_range (Some al) = al"
  by (simp_all add: map_range_def)

lemma map_index_simps [simp]: "map_index None k = None" "map_index (Some al) k = map_of al k"
  by (simp_all add: map_index_def)

lemma update_fresh_key: "map_of al k = None \<Longrightarrow> AList.update k v al = al @ [(k, v)]"
  by (induction al) (auto split: if_splits)

lemma map_index_None_range: "map_index m k = None \<Longrightarrow> map_of (map_range m) k = None"
  by (simp add: map_index_def map_range_def split: option.splits)

lemma well_formed_NewPackageLogger:
  assumes wf: "well_formed w"
  shows "well_formed (snd (NewPackageLogger repo p_name w))"
proof (cases "map_index (repoMap (logger w)) repo")
  case None
  note fresh = map_index_None_range [OF None]
  from fresh have keys: "repo \<notin> fst ` set (map_range (repoMap (logger w)))"
    by (simp add: map_of_eq_None_iff)
  show ?thesis
    using wf keys
    by (auto simp: NewPackageLogger_new_repo [OF None] update_fresh_key [OF fresh]
                   well_formed_def list_all_iff less_Suc_eq)
next
  case (Some a)
  have a: "a < length (repoLoggers w)"
    using wf Some by (rule well_formed_repo_bound)
  show ?thesis
  proof (cases "map_of (repoLoggers w ! a) p_name")
    case (Some q)
    with \<open>map_index (repoMap (logger w)) repo = Some a\<close> wf show ?thesis
      by (simp add: NewPackageLogger_known)
  next
    case None
    let ?n = "length (packageLoggers w)"
    let ?t = "repoLoggers w ! a @ [(p_name, ?n)]"
    from wf a have old: "distinct (map fst (repoLoggers w ! a))" "distinct (map snd (repoLoggers w ! a))"
      "\<forall>(k, p) \<in> set (repoLoggers w ! a). p < ?n"
      by (auto simp: well_formed_def list_all_iff)
    from None have "p_name \<notin> fst ` set (repoLoggers w ! a)"
      by (simp add: map_of_eq_None_iff)
    with old have new: "distinct (map fst ?t)" "distinct (map snd ?t)"
      "\<forall>(k, p) \<in> set ?t. p < Suc ?n"
      by (auto simp: less_Suc_eq)
    have "\<forall>t \<in> set ((repoLoggers w)[a := ?t]).
            distinct (map fst t) \<and> distinct (map snd t) \<and> (\<forall>(k, p) \<in> set t. p < Suc ?n)"
    proof
      fix t assume "t \<in> set ((repoLoggers w)[a := ?t])"
      then have "t = ?t \<or> t \<in> set (repoLoggers w)"
        using set_update_subset_insert [of "repoLoggers w" a ?t] by auto
      then show "distinct (map fst t) \<and> distinct (map snd t) \<and> (\<forall>(k, p) \<in> set t. p < Suc ?n)"
        using new wf by (auto simp: well_formed_def list_all_iff less_Suc_eq)
    qed
    with wf show ?thesis
      by (simp add: NewPackageLogger_new_package [OF \<open>map_index (repoMap (logger w)) repo = Some a\<close> None]
                    update_fresh_key [OF None] well_formed_def list_all_iff)
  qed
qed


subsection \<open>Applying a level configuration, and looking a repository up\<close>

lemma fold_entry_frame [simp]:
  "logger (fold (\<lambda>(k, v) w. case map_index (table w r) k of None \<Rightarrow> w
                                   | Some l \<Rightarrow> store_level l v w) ms w) = logger w"
  "repoLoggers (fold (\<lambda>(k, v) w. case map_index (table w r) k of None \<Rightarrow> w
                                   | Some l \<Rightarrow> store_level l v w) ms w) = repoLoggers w"
  "length (packageLoggers (fold (\<lambda>(k, v) w. case map_index (table w r) k of None \<Rightarrow> w
                                   | Some l \<Rightarrow> store_level l v w) ms w)) = length (packageLoggers w)"
  "map pkg (packageLoggers (fold (\<lambda>(k, v) w. case map_index (table w r) k of None \<Rightarrow> w
                                   | Some l \<Rightarrow> store_level l v w) ms w)) = map pkg (packageLoggers w)"
  by (induction ms arbitrary: w; simp add: case_prod_beta split: option.splits)+

lemma SetLogLevel_frame [simp]:
  "logger (SetLogLevel r m w) = logger w"
  "repoLoggers (SetLogLevel r m w) = repoLoggers w"
  "length (packageLoggers (SetLogLevel r m w)) = length (packageLoggers w)"
  "map pkg (packageLoggers (SetLogLevel r m w)) = map pkg (packageLoggers w)"
  by (simp_all add: SetLogLevel_def Let_def split: option.splits)

lemma well_formed_SetLogLevel [simp]: "well_formed (SetLogLevel r m w) = well_formed w"
  by (simp add: well_formed_def)

lemma distinct_snd_key:
  "distinct (map snd al) \<Longrightarrow> (k, p) \<in> set al \<Longrightarrow> (k', p) \<in> set al \<Longrightarrow> k = k'"
proof -
  assume "distinct (map snd al)" and k: "(k, p) \<in> set al" and k': "(k', p) \<in> set al"
  then have "inj_on snd (set al)"
    by (simp add: distinct_map)
  from inj_onD [OF this _ k k'] show "k = k'"
    by simp
qed

lemma load_fold_entry:
  assumes "distinct (map fst ms)"
    and "distinct (map snd (map_range (table w r)))"
    and "map_index (table w r) k = Some p"
    and "p < length (packageLoggers w)"
  shows "load_level p (fold (\<lambda>(k, v) w. case map_index (table w r) k of None \<Rightarrow> w
                                   | Some l \<Rightarrow> store_level l v w) ms w)
         = (case map_of ms k of Some v \<Rightarrow> v | None \<Rightarrow> load_level p w)"
  using assms
proof (induction ms arbitrary: w)
  case Nil
  show ?case by simp
next
  case (Cons kv ms)
  obtain k' v where kv: "kv = (k', v)" by (cases kv)
  let ?w = "case map_index (table w r) k' of None \<Rightarrow> w | Some l \<Rightarrow> store_level l v w"
  have tab: "table ?w r = table w r"
    by (simp split: option.splits)
  have len: "length (packageLoggers ?w) = length (packageLoggers w)"
    by (simp split: option.splits)
  from Cons.prems have d: "distinct (map fst ms)" and fresh: "k' \<notin> fst ` set ms"
    by (auto simp: kv)
  have IH: "load_level p (fold (\<lambda>(k, v) w. case map_index (table w r) k of None \<Rightarrow> w
                                   | Some l \<Rightarrow> store_level l v w) ms ?w)
         = (case map_of ms k of Some v \<Rightarrow> v | None \<Rightarrow> load_level p ?w)"
    using Cons.prems by (intro Cons.IH [OF d]) (simp_all only: tab len)
  show ?case
  proof (cases "k' = k")
    case True
    with fresh have "map_of ms k = None"
      by (simp add: map_of_eq_None_iff)
    moreover have "?w = store_level p v w"
      using True Cons.prems(3) by simp
    ultimately show ?thesis
      using True Cons.prems(3,4) IH by (simp add: kv load_store_level)
  next
    case False
    have "load_level p ?w = load_level p w"
    proof (cases "map_index (table w r) k'")
      case None
      then show ?thesis by simp
    next
      case (Some p')
      have "p' \<noteq> p"
      proof
        assume "p' = p"
        with Some Cons.prems(3) have "(k', p) \<in> set (map_range (table w r))"
          "(k, p) \<in> set (map_range (table w r))"
          by (auto dest: map_index_SomeD)
        with Cons.prems(2) have "k = k'"
          by (blast intro: distinct_snd_key)
        with False show False by simp
      qed
      with Some show ?thesis
        by (simp add: load_store_level)
    qed
    with False show ?thesis
      by (simp add: kv IH cong: option.case_cong)
  qed
qed

text \<open>
  C2. \<^verbatim>\<open>SetLogLevel\<close> first sets every package of the repository to the level under
  \<^verbatim>\<open>"*"\<close>, if the map has that key, and then stores the level of each key that names a
  package. So, in a state of the registry and for a map \<open>m\<close> visited in any order, a
  package named in \<open>m\<close> ends at its own level, a package not named ends at the level of
  \<^verbatim>\<open>"*"\<close> when \<open>m\<close> has one, and keeps its level otherwise. With packages \<open>a\<close> and
  \<open>b\<close> at \<^verbatim>\<open>INFO\<close> and the map parsed from \<^verbatim>\<open>"*=ERROR,b=DEBUG"\<close>, \<open>a\<close> ends at
  \<^verbatim>\<open>ERROR\<close> and \<open>b\<close> at \<^verbatim>\<open>DEBUG\<close>.
\<close>

theorem SetLogLevel_star_first:
  "well_formed w \<and> a < length (repoLoggers w) \<and> distinct (map fst m)
     \<and> map_index (table w (Some a)) k = Some p
   \<longrightarrow> load_level p (SetLogLevel (Some a) (Some m) w)
         = (case map_of m k of
              Some v \<Rightarrow> v
            | None \<Rightarrow> (case map_of m ''*'' of Some l \<Rightarrow> l | None \<Rightarrow> load_level p w))"
proof
  assume asm: "well_formed w \<and> a < length (repoLoggers w) \<and> distinct (map fst m)
     \<and> map_index (table w (Some a)) k = Some p"
  then have wf: "well_formed w" and a: "a < length (repoLoggers w)"
    and m: "distinct (map fst m)" and entry: "map_index (table w (Some a)) k = Some p"
    by simp_all
  from entry have lookup: "map_of (repoLoggers w ! a) k = Some p"
    by (simp add: table_def)
  have p: "p < length (packageLoggers w)"
    using wf a lookup by (rule well_formed_ptr_bound)
  have inj: "distinct (map snd (map_range (table w (Some a))))"
    using wf a by (auto simp: well_formed_def list_all_iff table_def)
  have mem: "p \<in> snd ` set (map_range (table w (Some a)))"
    using map_index_SomeD [OF entry] by force
  show "load_level p (SetLogLevel (Some a) (Some m) w)
         = (case map_of m k of
              Some v \<Rightarrow> v
            | None \<Rightarrow> (case map_of m ''*'' of Some l \<Rightarrow> l | None \<Rightarrow> load_level p w))"
  proof (cases "map_of m ''*''")
    case None
    then show ?thesis
      using load_fold_entry [OF m inj entry p]
      by (simp add: SetLogLevel_def split: option.splits)
  next
    case (Some l)
    let ?w1 = "setRepoLogLevelInternal (Some a) l w"
    have "load_level p (SetLogLevel (Some a) (Some m) w)
        = (case map_of m k of Some v \<Rightarrow> v | None \<Rightarrow> load_level p ?w1)"
      using load_fold_entry [of m ?w1 "Some a" k p] m inj entry p
      by (simp add: SetLogLevel_def Some)
    moreover have "load_level p ?w1 = l"
      using mem p by (simp add: load_setRepoLogLevelInternal)
    ultimately show ?thesis
      by (simp add: Some split: option.splits)
  qed
qed


theorem SetLogLevel_star_first_witness:
  "snd (NewPackageLogger ''R'' ''b'' (snd (NewPackageLogger ''R'' ''a'' (logger_new :: unit world))))
     = \<lparr>logger = \<lparr>repoMap = Some [(''R'', 0)], formatter = None\<rparr>,
        repoLoggers = [[(''a'', 0), (''b'', 1)]],
        packageLoggers = [\<lparr>pkg = ''a'', level = INFO\<rparr>, \<lparr>pkg = ''b'', level = INFO\<rparr>]\<rparr>
   \<and> ParseLogLevelConfig (Some 0) ''*=ERROR,b=DEBUG'' = (Some [(''*'', ERROR), (''b'', DEBUG)], None)
   \<and> load_level 0 (SetLogLevel (Some 0) (Some [(''*'', ERROR), (''b'', DEBUG)])
        (\<lparr>logger = \<lparr>repoMap = Some [(''R'', 0)], formatter = None\<rparr>,
          repoLoggers = [[(''a'', 0), (''b'', 1)]],
          packageLoggers = [\<lparr>pkg = ''a'', level = INFO\<rparr>, \<lparr>pkg = ''b'', level = INFO\<rparr>]\<rparr>
         :: unit world)) = ERROR
   \<and> load_level 1 (SetLogLevel (Some 0) (Some [(''*'', ERROR), (''b'', DEBUG)])
        (\<lparr>logger = \<lparr>repoMap = Some [(''R'', 0)], formatter = None\<rparr>,
          repoLoggers = [[(''a'', 0), (''b'', 1)]],
          packageLoggers = [\<lparr>pkg = ''a'', level = INFO\<rparr>, \<lparr>pkg = ''b'', level = INFO\<rparr>]\<rparr>
         :: unit world)) = DEBUG
   \<and> load_level 1 (SetLogLevel (Some 0) (Some [(''b'', DEBUG), (''*'', ERROR)])
        (\<lparr>logger = \<lparr>repoMap = Some [(''R'', 0)], formatter = None\<rparr>,
          repoLoggers = [[(''a'', 0), (''b'', 1)]],
          packageLoggers = [\<lparr>pkg = ''a'', level = INFO\<rparr>, \<lparr>pkg = ''b'', level = INFO\<rparr>]\<rparr>
         :: unit world)) = DEBUG"
proof -
  let ?w = "\<lparr>logger = \<lparr>repoMap = Some [(''R'', 0)], formatter = None\<rparr>,
          repoLoggers = [[(''a'', 0), (''b'', 1)]],
          packageLoggers = [\<lparr>pkg = ''a'', level = INFO\<rparr>, \<lparr>pkg = ''b'', level = INFO\<rparr>]\<rparr>
         :: unit world"
  let ?m = "[(''*'', ERROR), (''b'', DEBUG)]"
  let ?m' = "[(''b'', DEBUG), (''*'', ERROR)]"
  have built: "snd (NewPackageLogger ''R'' ''b'' (snd (NewPackageLogger ''R'' ''a'' (logger_new :: unit world)))) = ?w"
    by (simp add: NewPackageLogger_def logger_new_def map_index_def map_range_def)
  have parsed: "ParseLogLevelConfig (Some 0) ''*=ERROR,b=DEBUG'' = (Some ?m, None)"
    by (simp add: ParseLogLevelConfig_def ParseLevel_def)
  have wf: "well_formed ?w"
    by (simp add: well_formed_def map_range_def)
  have a: "0 < length (repoLoggers ?w)"
    by simp
  have ka: "map_index (table ?w (Some 0)) ''a'' = Some 0"
    and kb: "map_index (table ?w (Some 0)) ''b'' = Some 1"
    by (simp_all add: map_index_def table_def)
  have d: "distinct (map fst ?m)" and d': "distinct (map fst ?m')"
    by simp_all
  have "load_level 0 (SetLogLevel (Some 0) (Some ?m) ?w) = ERROR"
    using SetLogLevel_star_first [of ?w 0 ?m "''a''" 0] wf a d ka by simp
  moreover have "load_level 1 (SetLogLevel (Some 0) (Some ?m) ?w) = DEBUG"
    using SetLogLevel_star_first [of ?w 0 ?m "''b''" 1] wf a d kb by simp
  moreover have "load_level 1 (SetLogLevel (Some 0) (Some ?m') ?w) = DEBUG"
    using SetLogLevel_star_first [of ?w 0 ?m' "''b''" 1] wf a d' kb by simp
  ultimately show ?thesis
    using built parsed by blast
qed

lemma store_level_same:
  "(p < length (packageLoggers w) \<longrightarrow> load_level p w = v) \<Longrightarrow> store_level p v w = w"
proof (cases "p < length (packageLoggers w)")
  case True
  assume "p < length (packageLoggers w) \<longrightarrow> load_level p w = v"
  with True have "(packageLoggers w ! p)\<lparr>level := v\<rparr> = packageLoggers w ! p"
    by (simp add: load_level_def)
  then show ?thesis
    by (simp add: store_level_def)
next
  case False
  then show ?thesis
    by (simp add: store_level_def list_update_beyond)
qed

lemma fold_entry_noop:
  "\<forall>(k, v) \<in> set ms. \<forall>p. map_index (table w r) k = Some p
      \<longrightarrow> (p < length (packageLoggers w) \<longrightarrow> load_level p w = v)
   \<Longrightarrow> fold (\<lambda>(k, v) w. case map_index (table w r) k of None \<Rightarrow> w
                                   | Some l \<Rightarrow> store_level l v w) ms w = w"
  by (induction ms) (auto simp: store_level_same split: option.splits)

text \<open>
  C5. Package names that the repository does not have are ignored by \<^verbatim>\<open>SetLogLevel\<close>,
  which has no error result. A map that has no \<^verbatim>\<open>"*"\<close> key and whose keys are all
  unknown package names leaves the whole state as it was, hence the level of every
  package. When the map does have a \<^verbatim>\<open>"*"\<close> key and its other keys are all unknown, the
  call does what the entry under \<^verbatim>\<open>"*"\<close> alone does, the blanket set of its level: the
  levels are then not left unchanged, the unknown keys still add nothing.
\<close>

theorem SetLogLevel_unknown_ignored:
  "(distinct (map fst m) \<and> ''*'' \<notin> fst ` set m
      \<and> (\<forall>k \<in> fst ` set m. map_index (table w r) k = None)
    \<longrightarrow> SetLogLevel r (Some m) w = w)
   \<and> (distinct (map fst m)
      \<and> (\<forall>k \<in> fst ` set m. k \<noteq> ''*'' \<longrightarrow> map_index (table w r) k = None)
    \<longrightarrow> SetLogLevel r (Some m) w
          = (case map_of m ''*'' of None \<Rightarrow> w | Some l \<Rightarrow> setRepoLogLevelInternal r l w))"
proof -
  have general: "SetLogLevel r (Some m) w
          = (case map_of m ''*'' of None \<Rightarrow> w | Some l \<Rightarrow> setRepoLogLevelInternal r l w)"
    if d: "distinct (map fst m)"
      and unknown: "\<forall>k \<in> fst ` set m. k \<noteq> ''*'' \<longrightarrow> map_index (table w r) k = None"
  proof (cases "map_of m ''*''")
    case None
    then have "''*'' \<notin> fst ` set m"
      by (simp add: map_of_eq_None_iff)
    with unknown have "\<forall>(k, v) \<in> set m. map_index (table w r) k = None"
      by force
    then have "fold (\<lambda>(k, v) w. case map_index (table w r) k of None \<Rightarrow> w
                                   | Some l \<Rightarrow> store_level l v w) m w = w"
      by (intro fold_entry_noop) auto
    with None show ?thesis
      by (simp add: SetLogLevel_def)
  next
    case (Some l)
    let ?w1 = "setRepoLogLevelInternal r l w"
    have "\<forall>(k, v) \<in> set m. \<forall>p. map_index (table ?w1 r) k = Some p
      \<longrightarrow> (p < length (packageLoggers ?w1) \<longrightarrow> load_level p ?w1 = v)"
    proof (intro ballI, clarify)
      fix k v p
      assume kv: "(k, v) \<in> set m" and kp: "map_index (table ?w1 r) k = Some p"
        and p: "p < length (packageLoggers ?w1)"
      from kp have kp': "map_index (table w r) k = Some p"
        by simp
      have "k = ''*''"
      proof (rule ccontr)
        assume "k \<noteq> ''*''"
        with unknown kv have "map_index (table w r) k = None"
          by force
        with kp' show False by simp
      qed
      with kv d Some have "v = l"
        by (metis map_of_is_SomeI option.inject)
      moreover have "p \<in> snd ` set (map_range (table w r))"
        using map_index_SomeD [OF kp'] by force
      ultimately show "load_level p ?w1 = v"
        using p by (simp add: load_setRepoLogLevelInternal)
    qed
    then have "fold (\<lambda>(k, v) w. case map_index (table w r) k of None \<Rightarrow> w
                                   | Some l \<Rightarrow> store_level l v w) m ?w1 = ?w1"
      by (rule fold_entry_noop)
    with Some show ?thesis
      by (simp add: SetLogLevel_def)
  qed
  have frame: "SetLogLevel r (Some m) w = w"
    if d: "distinct (map fst m)" and nostar: "''*'' \<notin> fst ` set m"
      and unknown: "\<forall>k \<in> fst ` set m. map_index (table w r) k = None"
  proof -
    from nostar have "map_of m ''*'' = None"
      by (simp add: map_of_eq_None_iff)
    with general [OF d] unknown show ?thesis
      by simp
  qed
  from general frame show ?thesis
    by blast
qed


theorem SetLogLevel_unknown_ignored_witness:
  "SetLogLevel (Some 0) (Some [(''unknownpkg'', TRACE)])
      (\<lparr>logger = \<lparr>repoMap = Some [(''R'', 0)], formatter = None\<rparr>,
        repoLoggers = [[(''a'', 0), (''b'', 1)]],
        packageLoggers = [\<lparr>pkg = ''a'', level = INFO\<rparr>, \<lparr>pkg = ''b'', level = DEBUG\<rparr>]\<rparr>
       :: unit world)
     = \<lparr>logger = \<lparr>repoMap = Some [(''R'', 0)], formatter = None\<rparr>,
        repoLoggers = [[(''a'', 0), (''b'', 1)]],
        packageLoggers = [\<lparr>pkg = ''a'', level = INFO\<rparr>, \<lparr>pkg = ''b'', level = DEBUG\<rparr>]\<rparr>
   \<and> SetLogLevel (Some 0) (Some [(''nosuch'', TRACE), (''*'', ERROR)])
      (\<lparr>logger = \<lparr>repoMap = Some [(''R'', 0)], formatter = None\<rparr>,
        repoLoggers = [[(''a'', 0), (''b'', 1)]],
        packageLoggers = [\<lparr>pkg = ''a'', level = INFO\<rparr>, \<lparr>pkg = ''b'', level = DEBUG\<rparr>]\<rparr>
       :: unit world)
     = \<lparr>logger = \<lparr>repoMap = Some [(''R'', 0)], formatter = None\<rparr>,
        repoLoggers = [[(''a'', 0), (''b'', 1)]],
        packageLoggers = [\<lparr>pkg = ''a'', level = ERROR\<rparr>, \<lparr>pkg = ''b'', level = ERROR\<rparr>]\<rparr>"
proof -
  let ?w = "\<lparr>logger = \<lparr>repoMap = Some [(''R'', 0)], formatter = None\<rparr>,
        repoLoggers = [[(''a'', 0), (''b'', 1)]],
        packageLoggers = [\<lparr>pkg = ''a'', level = INFO\<rparr>, \<lparr>pkg = ''b'', level = DEBUG\<rparr>]\<rparr>
       :: unit world"
  let ?m = "[(''unknownpkg'', TRACE)]"
  let ?m' = "[(''nosuch'', TRACE), (''*'', ERROR)]"
  have h: "distinct (map fst ?m) \<and> ''*'' \<notin> fst ` set ?m
      \<and> (\<forall>k \<in> fst ` set ?m. map_index (table ?w (Some 0)) k = None)"
    by (simp add: map_index_def table_def)
  have h': "distinct (map fst ?m')
      \<and> (\<forall>k \<in> fst ` set ?m'. k \<noteq> ''*'' \<longrightarrow> map_index (table ?w (Some 0)) k = None)"
    by (simp add: map_index_def table_def)
  have "SetLogLevel (Some 0) (Some ?m) ?w = ?w"
    using SetLogLevel_unknown_ignored [of ?m ?w "Some 0", THEN conjunct1, THEN mp, OF h] .
  moreover have "SetLogLevel (Some 0) (Some ?m') ?w = setRepoLogLevelInternal (Some 0) ERROR ?w"
    using SetLogLevel_unknown_ignored [of ?m' ?w "Some 0", THEN conjunct2, THEN mp, OF h'] by simp
  moreover have "setRepoLogLevelInternal (Some 0) ERROR ?w
     = \<lparr>logger = \<lparr>repoMap = Some [(''R'', 0)], formatter = None\<rparr>,
        repoLoggers = [[(''a'', 0), (''b'', 1)]],
        packageLoggers = [\<lparr>pkg = ''a'', level = ERROR\<rparr>, \<lparr>pkg = ''b'', level = ERROR\<rparr>]\<rparr>"
    by (simp add: setRepoLogLevelInternal_def store_level_def table_def map_range_def)
  ultimately show ?thesis
    by simp
qed

text \<open>
  With packages \<open>a\<close> and \<open>b\<close> at \<^verbatim>\<open>INFO\<close>, the map \<^verbatim>\<open>{"*": ERROR, "nosuch": TRACE}\<close>
  has one key other than \<^verbatim>\<open>"*"\<close>, which is unknown, and applying it moves both
  packages to \<^verbatim>\<open>ERROR\<close>.
\<close>

theorem SetLogLevel_star_with_unknown_counterexample:
  "snd (NewPackageLogger ''R'' ''b'' (snd (NewPackageLogger ''R'' ''a'' (logger_new :: unit world))))
     = \<lparr>logger = \<lparr>repoMap = Some [(''R'', 0)], formatter = None\<rparr>,
         repoLoggers = [[(''a'', 0), (''b'', 1)]],
         packageLoggers = [\<lparr>pkg = ''a'', level = INFO\<rparr>, \<lparr>pkg = ''b'', level = INFO\<rparr>]\<rparr>
   \<and> map_index (table (\<lparr>logger = \<lparr>repoMap = Some [(''R'', 0)], formatter = None\<rparr>,
         repoLoggers = [[(''a'', 0), (''b'', 1)]],
         packageLoggers = [\<lparr>pkg = ''a'', level = INFO\<rparr>, \<lparr>pkg = ''b'', level = INFO\<rparr>]\<rparr> :: unit world) (Some 0)) ''nosuch'' = None
   \<and> load_level 0 (\<lparr>logger = \<lparr>repoMap = Some [(''R'', 0)], formatter = None\<rparr>,
         repoLoggers = [[(''a'', 0), (''b'', 1)]],
         packageLoggers = [\<lparr>pkg = ''a'', level = INFO\<rparr>, \<lparr>pkg = ''b'', level = INFO\<rparr>]\<rparr> :: unit world) = INFO
   \<and> load_level 0 (SetLogLevel (Some 0) (Some [(''*'', ERROR), (''nosuch'', TRACE)])
                     (\<lparr>logger = \<lparr>repoMap = Some [(''R'', 0)], formatter = None\<rparr>,
         repoLoggers = [[(''a'', 0), (''b'', 1)]],
         packageLoggers = [\<lparr>pkg = ''a'', level = INFO\<rparr>, \<lparr>pkg = ''b'', level = INFO\<rparr>]\<rparr> :: unit world)) = ERROR
   \<and> load_level 1 (SetLogLevel (Some 0) (Some [(''*'', ERROR), (''nosuch'', TRACE)])
                     (\<lparr>logger = \<lparr>repoMap = Some [(''R'', 0)], formatter = None\<rparr>,
         repoLoggers = [[(''a'', 0), (''b'', 1)]],
         packageLoggers = [\<lparr>pkg = ''a'', level = INFO\<rparr>, \<lparr>pkg = ''b'', level = INFO\<rparr>]\<rparr> :: unit world)) = ERROR
   \<and> ERROR \<noteq> INFO"
  by (simp add: NewPackageLogger_def logger_new_def map_index_def map_range_def table_def
                load_level_def SetLogLevel_def setRepoLogLevelInternal_def store_level_def
                ERROR_def INFO_def)

lemma RepoLogger_state [simp]: "snd (RepoLogger repo w) = w"
  by (simp add: RepoLogger_def split: option.splits)

lemma MustRepoLogger_state [simp]: "snd (MustRepoLogger repo w) = w"
  by (simp add: MustRepoLogger_def RepoLogger_def split: option.splits)

lemma repoMap_NewPackageLogger:
  "fst ` set (map_range (repoMap (logger (snd (NewPackageLogger repo p_name w)))))
     = insert repo (fst ` set (map_range (repoMap (logger w))))"
proof (cases "map_index (repoMap (logger w)) repo")
  case None
  show ?thesis
    by (simp add: NewPackageLogger_new_repo [OF None] dom_update)
next
  case (Some a)
  then have "repo \<in> fst ` set (map_range (repoMap (logger w)))"
    by (force dest: map_index_SomeD)
  then show ?thesis
    using Some
    by (cases "map_of (repoLoggers w ! a) p_name")
       (auto simp: NewPackageLogger_new_package NewPackageLogger_known)
qed

lemma repoMap_exec:
  "fst ` set (map_range (repoMap (logger (exec c w))))
     = fst ` set (map_range (repoMap (logger w)))
       \<union> (case c of Call_NewPackageLogger repo p_name \<Rightarrow> {repo} | _ \<Rightarrow> {})"
  by (cases c) (simp_all add: repoMap_NewPackageLogger SetRepoLogLevel_def SetFormatter_def)

lemma repoMap_run:
  "fst ` set (map_range (repoMap (logger (run calls w))))
     = fst ` set (map_range (repoMap (logger w)))
       \<union> {repo. \<exists>p_name. Call_NewPackageLogger repo p_name \<in> set calls}"
proof (induction calls arbitrary: w)
  case Nil
  show ?case by (simp add: run_def)
next
  case (Cons c calls)
  have step: "run (c # calls) w = run calls (exec c w)"
    by (simp add: run_def)
  have "fst ` set (map_range (repoMap (logger (run (c # calls) w))))
      = fst ` set (map_range (repoMap (logger (exec c w))))
        \<union> {repo. \<exists>p_name. Call_NewPackageLogger repo p_name \<in> set calls}"
    unfolding step by (rule Cons.IH)
  also have "\<dots> = fst ` set (map_range (repoMap (logger w)))
        \<union> (case c of Call_NewPackageLogger repo p_name \<Rightarrow> {repo} | _ \<Rightarrow> {})
        \<union> {repo. \<exists>p_name. Call_NewPackageLogger repo p_name \<in> set calls}"
    by (simp only: repoMap_exec)
  also have "\<dots> = fst ` set (map_range (repoMap (logger w)))
        \<union> {repo. \<exists>p_name. Call_NewPackageLogger repo p_name \<in> set (c # calls)}"
    by (cases c) auto
  finally show ?case .
qed

lemma well_formed_exec: "well_formed w \<Longrightarrow> well_formed (exec c w)"
  by (cases c)
     (simp_all add: well_formed_NewPackageLogger SetRepoLogLevel_def,
      simp add: well_formed_def SetFormatter_def)

lemma well_formed_run: "well_formed (run calls logger_new)"
proof -
  have "well_formed w \<Longrightarrow> well_formed (run calls w)" for w :: "'a world"
    by (induction calls arbitrary: w) (simp_all add: run_def well_formed_exec)
  then show ?thesis
    by (simp add: well_formed_logger_new)
qed

text \<open>
  C6. In the state reached by any sequence of calls among which none is
  \<^verbatim>\<open>NewPackageLogger(repo, _)\<close>, \<^verbatim>\<open>RepoLogger(repo)\<close> returns the \<^verbatim>\<open>nil\<close> handle and the
  error \<^verbatim>\<open>"no packages registered for repo "\<close> followed by \<open>repo\<close>, and
  \<^verbatim>\<open>MustRepoLogger(repo)\<close> panics with that error; once a package has been registered
  under \<open>repo\<close> both return its handle. In any state the same holds whenever
  \<^verbatim>\<open>logger.repoMap\<close> lacks the key. Neither function changes the state, and
  \<^verbatim>\<open>MustRepoLogger\<close> panics exactly when \<^verbatim>\<open>RepoLogger\<close> returns an error.
\<close>

theorem RepoLogger_not_found:
  "((\<forall>p_name. Call_NewPackageLogger repo p_name \<notin> set calls)
      \<longrightarrow> RepoLogger repo (run calls logger_new)
            = ((None, Some (errors_New (''no packages registered for repo '' @ repo))),
               run calls logger_new)
          \<and> MustRepoLogger repo (run calls logger_new)
            = (Inl (panic_error (errors_New (''no packages registered for repo '' @ repo))),
               run calls logger_new))
   \<and> ((\<exists>p_name. Call_NewPackageLogger repo p_name \<in> set calls)
      \<longrightarrow> (\<exists>a. RepoLogger repo (run calls logger_new) = ((Some a, None), run calls logger_new)
               \<and> MustRepoLogger repo (run calls logger_new) = (Inr (Some a), run calls logger_new)))
   \<and> (map_index (repoMap (logger w)) repo = None
      \<longrightarrow> RepoLogger repo w
            = ((None, Some (errors_New (''no packages registered for repo '' @ repo))), w)
          \<and> MustRepoLogger repo w
            = (Inl (panic_error (errors_New (''no packages registered for repo '' @ repo))), w))
   \<and> snd (RepoLogger repo w) = w
   \<and> snd (MustRepoLogger repo w) = w
   \<and> ((\<exists>e. fst (MustRepoLogger repo w) = Inl e) \<longleftrightarrow> snd (fst (RepoLogger repo w)) \<noteq> None)"
proof -
  have state: "map_index (repoMap (logger w)) repo = None
      \<longrightarrow> RepoLogger repo w
            = ((None, Some (errors_New (''no packages registered for repo '' @ repo))), w)
          \<and> MustRepoLogger repo w
            = (Inl (panic_error (errors_New (''no packages registered for repo '' @ repo))), w)"
    by (simp add: RepoLogger_def MustRepoLogger_def)
  have never: "(\<forall>p_name. Call_NewPackageLogger repo p_name \<notin> set calls)
      \<longrightarrow> RepoLogger repo (run calls logger_new)
            = ((None, Some (errors_New (''no packages registered for repo '' @ repo))),
               run calls logger_new)
          \<and> MustRepoLogger repo (run calls logger_new)
            = (Inl (panic_error (errors_New (''no packages registered for repo '' @ repo))),
               run calls logger_new)"
  proof
    assume "\<forall>p_name. Call_NewPackageLogger repo p_name \<notin> set calls"
    then have "repo \<notin> fst ` set (map_range (repoMap (logger (run calls logger_new))))"
      by (simp add: repoMap_run logger_new_def)
    then have "map_index (repoMap (logger (run calls logger_new))) repo = None"
      by (simp add: map_index_None_iff)
    then show "RepoLogger repo (run calls logger_new)
            = ((None, Some (errors_New (''no packages registered for repo '' @ repo))),
               run calls logger_new)
          \<and> MustRepoLogger repo (run calls logger_new)
            = (Inl (panic_error (errors_New (''no packages registered for repo '' @ repo))),
               run calls logger_new)"
      by (simp add: RepoLogger_def MustRepoLogger_def)
  qed
  have once: "(\<exists>p_name. Call_NewPackageLogger repo p_name \<in> set calls)
      \<longrightarrow> (\<exists>a. RepoLogger repo (run calls logger_new) = ((Some a, None), run calls logger_new)
               \<and> MustRepoLogger repo (run calls logger_new) = (Inr (Some a), run calls logger_new))"
  proof
    assume "\<exists>p_name. Call_NewPackageLogger repo p_name \<in> set calls"
    then have "repo \<in> fst ` set (map_range (repoMap (logger (run calls logger_new))))"
      by (simp add: repoMap_run)
    then obtain a where "map_index (repoMap (logger (run calls logger_new))) repo = Some a"
      using map_index_None_iff [of "repoMap (logger (run calls logger_new))" repo] by auto
    then show "\<exists>a. RepoLogger repo (run calls logger_new) = ((Some a, None), run calls logger_new)
               \<and> MustRepoLogger repo (run calls logger_new) = (Inr (Some a), run calls logger_new)"
      by (simp add: RepoLogger_def MustRepoLogger_def)
  qed
  have same: "(\<exists>e. fst (MustRepoLogger repo w) = Inl e) \<longleftrightarrow> snd (fst (RepoLogger repo w)) \<noteq> None"
    by (simp add: RepoLogger_def MustRepoLogger_def split: option.splits)
  have s1: "snd (RepoLogger repo w) = w" and s2: "snd (MustRepoLogger repo w) = w"
    by simp_all
  from never once state s1 s2 same show ?thesis
    by (intro conjI)
qed

theorem RepoLogger_not_found_witness:
  "RepoLogger ''unknown''
      (run [Call_NewPackageLogger ''R'' ''a'', Call_SetGlobalLogLevel WARNING] (logger_new :: unit world))
     = ((None, Some (errors_New ''no packages registered for repo unknown'')),
        run [Call_NewPackageLogger ''R'' ''a'', Call_SetGlobalLogLevel WARNING] logger_new)
   \<and> MustRepoLogger ''unknown''
      (run [Call_NewPackageLogger ''R'' ''a'', Call_SetGlobalLogLevel WARNING] (logger_new :: unit world))
     = (Inl (panic_error (errors_New ''no packages registered for repo unknown'')),
        run [Call_NewPackageLogger ''R'' ''a'', Call_SetGlobalLogLevel WARNING] logger_new)
   \<and> fst (RepoLogger ''R''
      (run [Call_NewPackageLogger ''R'' ''a'', Call_SetGlobalLogLevel WARNING] (logger_new :: unit world)))
     = (Some 0, None)"
proof -
  let ?calls = "[Call_NewPackageLogger ''R'' ''a'', Call_SetGlobalLogLevel WARNING] :: unit call list"
  have never: "\<forall>p_name. Call_NewPackageLogger ''unknown'' p_name \<notin> set ?calls"
    by simp
  have found: "fst (RepoLogger ''R'' (run ?calls logger_new)) = (Some 0, None)"
    by (simp add: run_def RepoLogger_def SetGlobalLogLevel_def NewPackageLogger_def logger_new_def
                  setRepoLogLevelInternal_def store_level_def table_def)
  from RepoLogger_not_found [of "''unknown''" ?calls logger_new, THEN conjunct1, THEN mp, OF never] found
  show ?thesis
    by simp
qed

subsection \<open>Registration\<close>

lemma find_logger_cong:
  "repoMap (logger w') = repoMap (logger w) \<Longrightarrow> repoLoggers w' = repoLoggers w
   \<Longrightarrow> find_logger w' repo p_name = find_logger w repo p_name"
  by (simp add: find_logger_def table_def split: option.splits)

lemma map_of_map_range: "map_of (map_range m) k = map_index m k"
  by (cases m) simp_all

lemma find_logger_exec_setters [simp]:
  "find_logger (SetGlobalLogLevel l w) repo p_name = find_logger w repo p_name"
  "find_logger (SetRepoLogLevel r l w) repo p_name = find_logger w repo p_name"
  "find_logger (SetLogLevel r m w) repo p_name = find_logger w repo p_name"
  "find_logger (SetFormatter f w) repo p_name = find_logger w repo p_name"
  by (rule find_logger_cong; simp add: SetRepoLogLevel_def SetFormatter_def)+

lemma find_logger_SomeD:
  "find_logger w repo p_name = Some q \<Longrightarrow>
   \<exists>a. map_index (repoMap (logger w)) repo = Some a \<and> map_of (repoLoggers w ! a) p_name = Some q"
  by (auto simp: find_logger_def table_def split: option.splits)

lemma find_logger_known:
  "find_logger w repo p_name = Some q \<Longrightarrow> NewPackageLogger repo p_name w = (q, w)"
  by (auto dest!: find_logger_SomeD intro: NewPackageLogger_known)

lemma NewPackageLogger_keeps_entries:
  assumes wf: "well_formed w" and old: "find_logger w repo' p_name' = Some q"
  shows "find_logger (snd (NewPackageLogger repo p_name w)) repo' p_name' = Some q"
proof -
  from find_logger_SomeD [OF old] obtain a' where
    r': "map_index (repoMap (logger w)) repo' = Some a'"
    and e': "map_of (repoLoggers w ! a') p_name' = Some q"
    by blast
  have a': "a' < length (repoLoggers w)"
    using wf r' by (rule well_formed_repo_bound)
  show ?thesis
  proof (cases "map_index (repoMap (logger w)) repo")
    case None
    note fresh = map_index_None_range [OF None]
    from None r' have neq: "repo' \<noteq> repo" by auto
    let ?w' = "snd (NewPackageLogger repo p_name w)"
    have "map_index (repoMap (logger ?w')) repo' = Some a'"
      using neq r' by (simp add: NewPackageLogger_new_repo [OF None] update_conv' map_of_map_range)
    moreover have "repoLoggers ?w' ! a' = repoLoggers w ! a'"
      using a' by (simp add: NewPackageLogger_new_repo [OF None] nth_append)
    ultimately show ?thesis
      using e' by (simp add: find_logger_def table_def)
  next
    case (Some a)
    have a: "a < length (repoLoggers w)"
      using wf Some by (rule well_formed_repo_bound)
    show ?thesis
    proof (cases "map_of (repoLoggers w ! a) p_name")
      case (Some p)
      with \<open>map_index (repoMap (logger w)) repo = Some a\<close> old show ?thesis
        by (simp add: NewPackageLogger_known)
    next
      case None
      have "map_of ((repoLoggers w)[a := AList.update p_name (length (packageLoggers w)) (repoLoggers w ! a)] ! a') p_name'
            = Some q"
      proof (cases "a' = a")
        case True
        with None e' have "p_name' \<noteq> p_name" by auto
        with True a e' show ?thesis
          by (simp add: update_conv')
      next
        case False
        with e' show ?thesis by simp
      qed
      with r' show ?thesis
        by (simp add: NewPackageLogger_new_package [OF \<open>map_index (repoMap (logger w)) repo = Some a\<close> None]
                      find_logger_def table_def)
    qed
  qed
qed

lemma NewPackageLogger_keeps_loggers:
  "take (length (packageLoggers w)) (packageLoggers (snd (NewPackageLogger repo p_name w)))
     = packageLoggers w"
proof (cases "map_index (repoMap (logger w)) repo")
  case None
  show ?thesis
    by (simp add: NewPackageLogger_new_repo [OF None])
next
  case (Some a)
  show ?thesis
    by (cases "map_of (repoLoggers w ! a) p_name")
       (simp_all add: NewPackageLogger_new_package [OF Some] NewPackageLogger_known [OF Some])
qed

lemma NewPackageLogger_formatter:
  "formatter (logger (snd (NewPackageLogger repo p_name w))) = formatter (logger w)"
proof (cases "map_index (repoMap (logger w)) repo")
  case None
  show ?thesis
    by (simp add: NewPackageLogger_new_repo [OF None])
next
  case (Some a)
  show ?thesis
    by (cases "map_of (repoLoggers w ! a) p_name")
       (simp_all add: NewPackageLogger_new_package [OF Some] NewPackageLogger_known [OF Some])
qed

lemma find_logger_exec:
  "well_formed w \<Longrightarrow> find_logger w repo p_name = Some p
   \<Longrightarrow> find_logger (exec c w) repo p_name = Some p"
  by (cases c) (simp_all add: NewPackageLogger_keeps_entries)

lemma find_logger_run:
  "well_formed w \<Longrightarrow> find_logger w repo p_name = Some p
   \<Longrightarrow> find_logger (run calls w) repo p_name = Some p"
proof (induction calls arbitrary: w)
  case Nil
  then show ?case by (simp add: run_def)
next
  case (Cons c calls)
  have "run (c # calls) w = run calls (exec c w)"
    by (simp add: run_def)
  with Cons.IH [of "exec c w"] Cons.prems show ?case
    by (simp add: well_formed_exec find_logger_exec)
qed


lemma NewPackageLogger_keeps_handles:
  assumes "map_index (repoMap (logger w)) repo' = Some a'"
  shows "map_index (repoMap (logger (snd (NewPackageLogger repo p_name w)))) repo' = Some a'"
proof (cases "map_index (repoMap (logger w)) repo")
  case None
  with assms have "repo' \<noteq> repo" by auto
  with assms show ?thesis
    by (simp add: NewPackageLogger_new_repo [OF None] update_conv' map_of_map_range)
next
  case (Some a)
  with assms show ?thesis
    by (cases "map_of (repoLoggers w ! a) p_name")
       (simp_all add: NewPackageLogger_new_package [OF Some] NewPackageLogger_known [OF Some])
qed

lemma unshared_key:
  assumes "unshared w" and "map_index (repoMap (logger w)) repo = Some a"
    and "map_index (repoMap (logger w)) repo' = Some a"
  shows "repo' = repo"
proof -
  from assms(2,3) have "(repo, a) \<in> set (map_range (repoMap (logger w)))"
    "(repo', a) \<in> set (map_range (repoMap (logger w)))"
    by (auto dest: map_index_SomeD)
  with assms(1) show ?thesis
    unfolding unshared_def by (blast intro: distinct_snd_key)
qed

lemma NewPackageLogger_only_entry:
  assumes wf: "well_formed w" and un: "unshared w"
    and other: "(repo', p_name') \<noteq> (repo, p_name)"
  shows "find_logger (snd (NewPackageLogger repo p_name w)) repo' p_name'
         = find_logger w repo' p_name'"
proof (cases "map_index (repoMap (logger w)) repo")
  case None
  let ?w' = "snd (NewPackageLogger repo p_name w)"
  show ?thesis
  proof (cases "repo' = repo")
    case True
    with other have "p_name' \<noteq> p_name" by simp
    then have "find_logger ?w' repo p_name' = None"
      by (simp add: NewPackageLogger_new_repo [OF None] find_logger_def table_def update_conv')
    moreover have "find_logger w repo p_name' = None"
      using None by (simp add: find_logger_def)
    ultimately show ?thesis
      using True by simp
  next
    case False
    then have same: "map_index (repoMap (logger ?w')) repo' = map_index (repoMap (logger w)) repo'"
      by (simp add: NewPackageLogger_new_repo [OF None] update_conv' map_of_map_range)
    show ?thesis
    proof (cases "map_index (repoMap (logger w)) repo'")
      case None
      with same show ?thesis
        by (simp add: find_logger_def)
    next
      case (Some a')
      have "a' < length (repoLoggers w)"
        using wf Some by (rule well_formed_repo_bound)
      then have "repoLoggers ?w' ! a' = repoLoggers w ! a'"
        by (simp add: NewPackageLogger_new_repo [OF \<open>map_index (repoMap (logger w)) repo = None\<close>]
                      nth_append)
      with same Some show ?thesis
        by (simp add: find_logger_def table_def)
    qed
  qed
next
  case (Some a)
  have a: "a < length (repoLoggers w)"
    using wf Some by (rule well_formed_repo_bound)
  show ?thesis
  proof (cases "map_of (repoLoggers w ! a) p_name")
    case (Some q)
    with \<open>map_index (repoMap (logger w)) repo = Some a\<close> show ?thesis
      by (simp add: NewPackageLogger_known)
  next
    case None
    let ?t = "AList.update p_name (length (packageLoggers w)) (repoLoggers w ! a)"
    note new = NewPackageLogger_new_package [OF \<open>map_index (repoMap (logger w)) repo = Some a\<close> None]
    show ?thesis
    proof (cases "map_index (repoMap (logger w)) repo'")
      case None
      then show ?thesis
        by (simp add: new find_logger_def)
    next
      case (Some a')
      have "map_of ((repoLoggers w)[a := ?t] ! a') p_name' = map_of (repoLoggers w ! a') p_name'"
      proof (cases "a' = a")
        case True
        with un \<open>map_index (repoMap (logger w)) repo = Some a\<close> Some have "repo' = repo"
          by (blast intro: unshared_key)
        with other have "p_name' \<noteq> p_name" by simp
        with True a show ?thesis
          by (simp add: update_conv')
      next
        case False
        then show ?thesis by simp
      qed
      with Some show ?thesis
        by (simp add: new find_logger_def table_def)
    qed
  qed
qed

lemma unshared_NewPackageLogger:
  assumes wf: "well_formed w" and un: "unshared w"
  shows "unshared (snd (NewPackageLogger repo p_name w))"
proof (cases "map_index (repoMap (logger w)) repo")
  case None
  note fresh = map_index_None_range [OF None]
  from wf have "\<forall>(k, a) \<in> set (map_range (repoMap (logger w))). a < length (repoLoggers w)"
    by (simp add: well_formed_def list_all_iff)
  then have "length (repoLoggers w) \<notin> snd ` set (map_range (repoMap (logger w)))"
    by force
  with un show ?thesis
    by (simp add: unshared_def NewPackageLogger_new_repo [OF None] update_fresh_key [OF fresh])
next
  case (Some a)
  with un show ?thesis
    by (cases "map_of (repoLoggers w ! a) p_name")
       (simp_all add: unshared_def NewPackageLogger_new_package [OF Some]
                      NewPackageLogger_known [OF Some])
qed

lemma unshared_exec: "well_formed w \<Longrightarrow> unshared w \<Longrightarrow> unshared (exec c w)"
  by (cases c)
     (simp_all add: unshared_NewPackageLogger,
      simp_all add: unshared_def SetRepoLogLevel_def SetFormatter_def)

lemma unshared_run: "unshared (run calls logger_new)"
proof -
  have "well_formed w \<Longrightarrow> unshared w \<Longrightarrow> unshared (run calls w)" for w :: "'a world"
  proof (induction calls arbitrary: w)
    case Nil
    then show ?case by (simp add: run_def)
  next
    case (Cons c calls)
    have "run (c # calls) w = run calls (exec c w)"
      by (simp add: run_def)
    with Cons.IH [of "exec c w"] Cons.prems show ?case
      by (simp add: well_formed_exec unshared_exec)
  qed
  moreover have "unshared (logger_new :: 'a world)"
    by (simp add: unshared_def logger_new_def)
  ultimately show ?thesis
    using well_formed_logger_new by blast
qed

lemma well_formed_run_from: "well_formed w \<Longrightarrow> well_formed (run calls w)"
  by (induction calls arbitrary: w) (simp_all add: run_def well_formed_exec)


text \<open>
  C1. \<^verbatim>\<open>NewPackageLogger(repo, pkg)\<close> in a state of the registry returns a pointer \<open>p\<close>
  that the new state has under \<open>pkg\<close> in the table of \<open>repo\<close>. If \<open>repo\<close> was
  unknown, a table is allocated for it, which holds this one package on return. If the
  package was unknown, \<open>p\<close> is a fresh \<^verbatim>\<open>packageLogger\<close> with this name at level
  \<^verbatim>\<open>INFO\<close>. If the package was present, \<open>p\<close> is the pointer already there and the
  state is unchanged, its level included. Registration keeps what was there: every
  repository keeps its handle, every package registered before is found under the same
  pointer, every \<^verbatim>\<open>packageLogger\<close> allocated before is as it was, the formatter too, and
  (tables not being shared between repositories) no other pair gains or loses an entry.
  After any further calls of the package, in any number, \<^verbatim>\<open>NewPackageLogger(repo, pkg)\<close>
  returns the same \<open>p\<close> and changes nothing, so a level written through the first
  handle is the level read through the later one.
\<close>

theorem NewPackageLogger_idempotent:
  assumes wf: "well_formed w" and call: "NewPackageLogger repo p_name w = (p, w')"
  shows
    "well_formed w'
     \<and> find_logger w' repo p_name = Some p
     \<and> p < length (packageLoggers w')
     \<and> (map_index (repoMap (logger w)) repo = None \<longrightarrow>
           map_index (repoMap (logger w')) repo = Some (length (repoLoggers w))
           \<and> table w' (Some (length (repoLoggers w))) = Some [(p_name, p)])
     \<and> (find_logger w repo p_name = None \<longrightarrow>
           p = length (packageLoggers w)
           \<and> packageLoggers w' = packageLoggers w @ [\<lparr>pkg = p_name, level = INFO\<rparr>])
     \<and> (\<forall>q. find_logger w repo p_name = Some q \<longrightarrow> p = q \<and> w' = w)
     \<and> (\<forall>repo' a. map_index (repoMap (logger w)) repo' = Some a
           \<longrightarrow> map_index (repoMap (logger w')) repo' = Some a)
     \<and> (\<forall>repo' p_name' q. find_logger w repo' p_name' = Some q
           \<longrightarrow> find_logger w' repo' p_name' = Some q)
     \<and> take (length (packageLoggers w)) (packageLoggers w') = packageLoggers w
     \<and> formatter (logger w') = formatter (logger w)
     \<and> (unshared w \<longrightarrow>
           unshared w'
           \<and> (\<forall>repo' p_name'. (repo', p_name') \<noteq> (repo, p_name)
                 \<longrightarrow> find_logger w' repo' p_name' = find_logger w repo' p_name'))
     \<and> (\<forall>calls. NewPackageLogger repo p_name (run calls w') = (p, run calls w'))
     \<and> (\<forall>calls l. load_level (fst (NewPackageLogger repo p_name (run calls w')))
                               (store_level p l (run calls w')) = l)"
proof -
  from call have w': "w' = snd (NewPackageLogger repo p_name w)"
    and p: "p = fst (NewPackageLogger repo p_name w)"
    by simp_all
  have wf': "well_formed w'"
    unfolding w' using wf by (rule well_formed_NewPackageLogger)
  have new_repo: "map_index (repoMap (logger w)) repo = None \<longrightarrow>
           map_index (repoMap (logger w')) repo = Some (length (repoLoggers w))
           \<and> table w' (Some (length (repoLoggers w))) = Some [(p_name, p)]"
  proof
    assume none: "map_index (repoMap (logger w)) repo = None"
    show "map_index (repoMap (logger w')) repo = Some (length (repoLoggers w))
           \<and> table w' (Some (length (repoLoggers w))) = Some [(p_name, p)]"
      unfolding w' p
      by (simp add: NewPackageLogger_new_repo [OF none] update_conv' table_def)
  qed
  have new_pkg: "find_logger w repo p_name = None \<longrightarrow>
           p = length (packageLoggers w)
           \<and> packageLoggers w' = packageLoggers w @ [\<lparr>pkg = p_name, level = INFO\<rparr>]"
  proof
    assume none: "find_logger w repo p_name = None"
    show "p = length (packageLoggers w)
           \<and> packageLoggers w' = packageLoggers w @ [\<lparr>pkg = p_name, level = INFO\<rparr>]"
    proof (cases "map_index (repoMap (logger w)) repo")
      case None
      show ?thesis
        unfolding w' p by (simp add: NewPackageLogger_new_repo [OF None])
    next
      case (Some a)
      with none have "map_of (repoLoggers w ! a) p_name = None"
        by (simp add: find_logger_def table_def)
      from NewPackageLogger_new_package [OF Some this] show ?thesis
        unfolding w' p by simp
    qed
  qed
  have known: "\<forall>q. find_logger w repo p_name = Some q \<longrightarrow> p = q \<and> w' = w"
    using call by (auto dest: find_logger_known)
  have found: "find_logger w' repo p_name = Some p"
  proof (cases "find_logger w repo p_name")
    case (Some q)
    with known show ?thesis by auto
  next
    case None
    show ?thesis
    proof (cases "map_index (repoMap (logger w)) repo")
      case None
      with new_repo show ?thesis
        by (simp add: find_logger_def)
    next
      case (Some a)
      with \<open>find_logger w repo p_name = None\<close> have none: "map_of (repoLoggers w ! a) p_name = None"
        by (simp add: find_logger_def table_def)
      have a: "a < length (repoLoggers w)"
        using wf Some by (rule well_formed_repo_bound)
      show ?thesis
        unfolding w' p using Some a
        by (simp add: NewPackageLogger_new_package [OF Some none] find_logger_def table_def
                      update_conv')
    qed
  qed
  from find_logger_SomeD [OF found] obtain a where
    reg: "map_index (repoMap (logger w')) repo = Some a"
    and ent: "map_of (repoLoggers w' ! a) p_name = Some p"
    by blast
  have bound: "p < length (packageLoggers w')"
    using wf' well_formed_repo_bound [OF wf' reg] ent by (rule well_formed_ptr_bound)
  have handles: "\<forall>repo' a. map_index (repoMap (logger w)) repo' = Some a
           \<longrightarrow> map_index (repoMap (logger w')) repo' = Some a"
    unfolding w' by (simp add: NewPackageLogger_keeps_handles)
  have entries: "\<forall>repo' p_name' q. find_logger w repo' p_name' = Some q
           \<longrightarrow> find_logger w' repo' p_name' = Some q"
    unfolding w' using wf by (simp add: NewPackageLogger_keeps_entries)
  have loggers: "take (length (packageLoggers w)) (packageLoggers w') = packageLoggers w"
    unfolding w' by (rule NewPackageLogger_keeps_loggers)
  have fmt: "formatter (logger w') = formatter (logger w)"
    unfolding w' by (rule NewPackageLogger_formatter)
  have only: "unshared w \<longrightarrow>
           unshared w'
           \<and> (\<forall>repo' p_name'. (repo', p_name') \<noteq> (repo, p_name)
                 \<longrightarrow> find_logger w' repo' p_name' = find_logger w repo' p_name')"
    unfolding w' using wf
    by (auto simp: unshared_NewPackageLogger NewPackageLogger_only_entry
             simp del: split_paired_All)
  have later: "NewPackageLogger repo p_name (run calls w') = (p, run calls w')" for calls
    using find_logger_run [OF wf' found] by (rule find_logger_known)
  then have again: "\<forall>calls. NewPackageLogger repo p_name (run calls w') = (p, run calls w')"
    by blast
  have shared: "\<forall>calls l. load_level (fst (NewPackageLogger repo p_name (run calls w')))
                               (store_level p l (run calls w')) = l"
  proof (intro allI)
    fix calls l
    have wfr: "well_formed (run calls w')"
      using wf' by (rule well_formed_run_from)
    from find_logger_SomeD [OF find_logger_run [OF wf' found, of calls]] obtain b where
      "map_index (repoMap (logger (run calls w'))) repo = Some b"
      "map_of (repoLoggers (run calls w') ! b) p_name = Some p"
      by blast
    then have "p < length (packageLoggers (run calls w'))"
      using wfr well_formed_repo_bound [OF wfr] by (blast intro: well_formed_ptr_bound)
    then show "load_level (fst (NewPackageLogger repo p_name (run calls w')))
                               (store_level p l (run calls w')) = l"
      by (simp add: later load_store_level)
  qed
  show ?thesis
    by (intro conjI; fact)
qed


theorem NewPackageLogger_idempotent_witness:
  "store_level 0 DEBUG (snd (NewPackageLogger ''R'' ''a'' (logger_new :: unit world)))
     = \<lparr>logger = \<lparr>repoMap = Some [(''R'', 0)], formatter = None\<rparr>,
         repoLoggers = [[(''a'', 0)]],
         packageLoggers = [\<lparr>pkg = ''a'', level = DEBUG\<rparr>]\<rparr>
   \<and> well_formed (\<lparr>logger = \<lparr>repoMap = Some [(''R'', 0)], formatter = None\<rparr>,
         repoLoggers = [[(''a'', 0)]],
         packageLoggers = [\<lparr>pkg = ''a'', level = DEBUG\<rparr>]\<rparr> :: unit world)
   \<and> NewPackageLogger ''R'' ''b'' (\<lparr>logger = \<lparr>repoMap = Some [(''R'', 0)], formatter = None\<rparr>,
         repoLoggers = [[(''a'', 0)]],
         packageLoggers = [\<lparr>pkg = ''a'', level = DEBUG\<rparr>]\<rparr> :: unit world)
       = (1, \<lparr>logger = \<lparr>repoMap = Some [(''R'', 0)], formatter = None\<rparr>,
         repoLoggers = [[(''a'', 0), (''b'', 1)]],
         packageLoggers = [\<lparr>pkg = ''a'', level = DEBUG\<rparr>, \<lparr>pkg = ''b'', level = INFO\<rparr>]\<rparr>)
   \<and> find_logger (\<lparr>logger = \<lparr>repoMap = Some [(''R'', 0)], formatter = None\<rparr>,
         repoLoggers = [[(''a'', 0), (''b'', 1)]],
         packageLoggers = [\<lparr>pkg = ''a'', level = DEBUG\<rparr>, \<lparr>pkg = ''b'', level = INFO\<rparr>]\<rparr> :: unit world) ''R'' ''a'' = Some 0
   \<and> NewPackageLogger ''R'' ''a'' (\<lparr>logger = \<lparr>repoMap = Some [(''R'', 0)], formatter = None\<rparr>,
         repoLoggers = [[(''a'', 0), (''b'', 1)]],
         packageLoggers = [\<lparr>pkg = ''a'', level = DEBUG\<rparr>, \<lparr>pkg = ''b'', level = INFO\<rparr>]\<rparr> :: unit world)
       = (0, \<lparr>logger = \<lparr>repoMap = Some [(''R'', 0)], formatter = None\<rparr>,
         repoLoggers = [[(''a'', 0), (''b'', 1)]],
         packageLoggers = [\<lparr>pkg = ''a'', level = DEBUG\<rparr>, \<lparr>pkg = ''b'', level = INFO\<rparr>]\<rparr>)
   \<and> load_level 0 (snd (NewPackageLogger ''R'' ''a'' (\<lparr>logger = \<lparr>repoMap = Some [(''R'', 0)], formatter = None\<rparr>,
         repoLoggers = [[(''a'', 0), (''b'', 1)]],
         packageLoggers = [\<lparr>pkg = ''a'', level = DEBUG\<rparr>, \<lparr>pkg = ''b'', level = INFO\<rparr>]\<rparr> :: unit world))) = DEBUG
   \<and> fst (NewPackageLogger ''R'' ''a''
            (run [Call_NewPackageLogger ''S'' ''c'', Call_SetLogLevel (Some 0) (Some [(''a'', TRACE)])]
                 (\<lparr>logger = \<lparr>repoMap = Some [(''R'', 0)], formatter = None\<rparr>,
         repoLoggers = [[(''a'', 0), (''b'', 1)]],
         packageLoggers = [\<lparr>pkg = ''a'', level = DEBUG\<rparr>, \<lparr>pkg = ''b'', level = INFO\<rparr>]\<rparr> :: unit world))) = 0
   \<and> load_level (fst (NewPackageLogger ''R'' ''b'' (\<lparr>logger = \<lparr>repoMap = Some [(''R'', 0)], formatter = None\<rparr>,
         repoLoggers = [[(''a'', 0), (''b'', 1)]],
         packageLoggers = [\<lparr>pkg = ''a'', level = DEBUG\<rparr>, \<lparr>pkg = ''b'', level = INFO\<rparr>]\<rparr> :: unit world))) (store_level 1 ERROR (\<lparr>logger = \<lparr>repoMap = Some [(''R'', 0)], formatter = None\<rparr>,
         repoLoggers = [[(''a'', 0), (''b'', 1)]],
         packageLoggers = [\<lparr>pkg = ''a'', level = DEBUG\<rparr>, \<lparr>pkg = ''b'', level = INFO\<rparr>]\<rparr> :: unit world))
       = ERROR"
proof -
  let ?w0 = "\<lparr>logger = \<lparr>repoMap = Some [(''R'', 0)], formatter = None\<rparr>,
         repoLoggers = [[(''a'', 0)]],
         packageLoggers = [\<lparr>pkg = ''a'', level = DEBUG\<rparr>]\<rparr> :: unit world"
  let ?w1 = "\<lparr>logger = \<lparr>repoMap = Some [(''R'', 0)], formatter = None\<rparr>,
         repoLoggers = [[(''a'', 0), (''b'', 1)]],
         packageLoggers = [\<lparr>pkg = ''a'', level = DEBUG\<rparr>, \<lparr>pkg = ''b'', level = INFO\<rparr>]\<rparr> :: unit world"
  let ?calls = "[Call_NewPackageLogger ''S'' ''c'', Call_SetLogLevel (Some 0) (Some [(''a'', TRACE)])] :: unit call list"
  have built: "store_level 0 DEBUG (snd (NewPackageLogger ''R'' ''a'' (logger_new :: unit world))) = ?w0"
    by (simp add: NewPackageLogger_def logger_new_def map_index_def map_range_def store_level_def)
  have wf0: "well_formed ?w0"
    by (simp add: well_formed_def map_range_def)
  have call_b: "NewPackageLogger ''R'' ''b'' ?w0 = (1, ?w1)"
    by (simp add: NewPackageLogger_def map_index_def map_range_def)
  have old: "find_logger ?w0 ''R'' ''a'' = Some 0"
    by (simp add: find_logger_def map_index_def table_def)
  note b = NewPackageLogger_idempotent [OF wf0 call_b]
  from b have wf1: "well_formed ?w1"
    by blast
  from b old have kept: "find_logger ?w1 ''R'' ''a'' = Some 0"
    by blast
  from b have b_again: "NewPackageLogger ''R'' ''b'' (run [] ?w1) = (1, run [] ?w1)"
    by blast
  from b have b_shared: "load_level (fst (NewPackageLogger ''R'' ''b'' (run [] ?w1)))
                               (store_level 1 ERROR (run [] ?w1)) = ERROR"
    by blast
  have call_a: "NewPackageLogger ''R'' ''a'' ?w1 = (0, ?w1)"
    using kept by (rule find_logger_known)
  note a = NewPackageLogger_idempotent [OF wf1 call_a]
  from a have a_later: "NewPackageLogger ''R'' ''a'' (run ?calls ?w1) = (0, run ?calls ?w1)"
    by blast
  have level: "load_level 0 ?w1 = DEBUG"
    by (simp add: load_level_def)
  have level': "load_level 0 (snd (NewPackageLogger ''R'' ''a'' ?w1)) = DEBUG"
    using level by (simp only: call_a snd_conv)
  have a_later': "fst (NewPackageLogger ''R'' ''a'' (run ?calls ?w1)) = 0"
    by (simp only: a_later fst_conv)
  have b_shared': "load_level (fst (NewPackageLogger ''R'' ''b'' ?w1)) (store_level 1 ERROR ?w1) = ERROR"
    using b_shared by (simp only: run_def fold_simps)
  show ?thesis
    by (intro conjI; fact)
qed

end
